theory Spec2Isabelle
  imports Main
begin

section \<open>Python strings and paths, as far as the sources use them\<close>

text \<open>
  A Python \<open>str\<close> is modelled as a \<open>string\<close> (a list of 8-bit characters): the model covers
  ASCII text, which is what the site's URLs, the archive names and the reason strings are
  made of. \<open>str.lower\<close> maps \<open>A..Z\<close> to \<open>a..z\<close> and leaves every other character alone.
\<close>

definition lower_char :: "char \<Rightarrow> char" where
  "lower_char c =
     (case map_of (zip ''ABCDEFGHIJKLMNOPQRSTUVWXYZ'' ''abcdefghijklmnopqrstuvwxyz'') c of
        None \<Rightarrow> c
      | Some d \<Rightarrow> d)"

definition lower :: "string \<Rightarrow> string" where
  "lower s = map lower_char s"

definition startswith :: "string \<Rightarrow> string \<Rightarrow> bool" where
  "startswith s p = (take (length p) s = p)"

definition endswith :: "string \<Rightarrow> string \<Rightarrow> bool" where
  "endswith s p = (length p \<le> length s \<and> drop (length s - length p) s = p)"

text \<open>\<open>needle in s\<close> for strings: some suffix of \<open>s\<close> starts with the needle.\<close>

fun contains :: "string \<Rightarrow> string \<Rightarrow> bool" where
  "contains [] needle = (needle = [])"
| "contains (c # s) needle = (startswith (c # s) needle \<or> contains s needle)"

text \<open>
  \<open>str.split(sep)\<close> for a one-character separator: the pieces between the separators,
  empty pieces included; the result is never empty.
\<close>

fun split_on :: "char \<Rightarrow> string \<Rightarrow> string list" where
  "split_on sep [] = [[]]"
| "split_on sep (c # s) =
     (if c = sep then [] # split_on sep s
      else (case split_on sep s of
              [] \<Rightarrow> [[c]]
            | w # ws \<Rightarrow> (c # w) # ws))"

text \<open>
  \<open>pathlib\<close>: a path is kept as its string. \<open>Path(p).name\<close> is the last component that is
  neither empty nor \<open>.\<close> (the separator is \<open>/\<close>), or the empty string when there is none.
  \<open>Path(p).suffix\<close> is the part of the name from its last dot on, when that dot is neither the
  first nor the last character of the name, and the empty string otherwise.
\<close>

definition path_parts :: "string \<Rightarrow> string list" where
  "path_parts p = filter (\<lambda>w. w \<noteq> [] \<and> w \<noteq> ''.'') (split_on CHR ''/'' p)"

definition path_name :: "string \<Rightarrow> string" where
  "path_name p = (case rev (path_parts p) of [] \<Rightarrow> [] | w # _ \<Rightarrow> w)"

text \<open>\<open>s.rfind(c)\<close>: the index of the last occurrence, or \<open>None\<close> for Python's \<open>-1\<close>.\<close>

fun rfind :: "string \<Rightarrow> char \<Rightarrow> nat option" where
  "rfind [] c = None"
| "rfind (x # xs) c =
     (case rfind xs c of
        Some i \<Rightarrow> Some (Suc i)
      | None \<Rightarrow> (if x = c then Some 0 else None))"

definition name_suffix :: "string \<Rightarrow> string" where
  "name_suffix nm =
     (case rfind nm CHR ''.'' of
        None \<Rightarrow> []
      | Some i \<Rightarrow> (if 0 < i \<and> i + 1 < length nm then drop i nm else []))"

definition path_suffix :: "string \<Rightarrow> string" where
  "path_suffix p = name_suffix (path_name p)"

section \<open>The standard library's URL functions\<close>

text \<open>
  \<open>rstrip("/")\<close>, \<open>strip("/")\<close> and the whitespace forms of \<open>strip\<close>. \<open>str.strip()\<close> removes
  the characters for which \<open>str.isspace\<close> holds; \<open>int()\<close> skips only C's white space.
\<close>

definition lstrip_char :: "char \<Rightarrow> string \<Rightarrow> string" where
  "lstrip_char c s = dropWhile (\<lambda>x. x = c) s"

definition rstrip_char :: "char \<Rightarrow> string \<Rightarrow> string" where
  "rstrip_char c s = rev (dropWhile (\<lambda>x. x = c) (rev s))"

definition strip_char :: "char \<Rightarrow> string \<Rightarrow> string" where
  "strip_char c s = rstrip_char c (lstrip_char c s)"

definition c_isspace :: "char \<Rightarrow> bool" where
  "c_isspace c = (c \<in> set [CHR 0x09, CHR 0x0A, CHR 0x0B, CHR 0x0C, CHR 0x0D, CHR '' ''])"

definition py_isspace :: "char \<Rightarrow> bool" where
  "py_isspace c = (c_isspace c \<or> c \<in> set [CHR 0x1C, CHR 0x1D, CHR 0x1E, CHR 0x1F])"

definition strip_where :: "(char \<Rightarrow> bool) \<Rightarrow> string \<Rightarrow> string" where
  "strip_where P s = rev (dropWhile P (rev (dropWhile P s)))"

definition py_strip :: "string \<Rightarrow> string" where
  "py_strip s = strip_where py_isspace s"

text \<open>Decimal digits, \<open>str(n)\<close> for a number and \<open>int(s)\<close> for a string.\<close>

definition is_digit :: "char \<Rightarrow> bool" where
  "is_digit c = (c \<in> set ''0123456789'')"

definition digit_val :: "char \<Rightarrow> nat" where
  "digit_val c = (case map_of (zip ''0123456789'' [0, 1, 2, 3, 4, 5, 6, 7, 8, 9]) c of
                    None \<Rightarrow> 0 | Some d \<Rightarrow> d)"

definition digit_char :: "nat \<Rightarrow> char" where
  "digit_char d = ''0123456789'' ! (d mod 10)"

fun str_nat :: "nat \<Rightarrow> string" where
  "str_nat n = (if n < 10 then [digit_char n] else str_nat (n div 10) @ [digit_char (n mod 10)])"

declare str_nat.simps [simp del]

definition str_int :: "int \<Rightarrow> string" where
  "str_int i = (if i < 0 then CHR ''-'' # str_nat (nat (- i)) else str_nat (nat i))"

definition digits_value :: "string \<Rightarrow> nat" where
  "digits_value s = foldl (\<lambda>a c. 10 * a + digit_val c) 0 s"

text \<open>
  The digits of an \<open>int()\<close> literal: digits with single underscores between them, so the
  first and the last character are digits and no two underscores are adjacent.
\<close>

fun literal_ok :: "string \<Rightarrow> bool" where
  "literal_ok [] = False"
| "literal_ok [c] = is_digit c"
| "literal_ok (c # d # s) =
     (is_digit c \<and> (if d = CHR ''_'' then literal_ok s else literal_ok (d # s)))"

text \<open>
  \<open>int(s)\<close>: \<open>None\<close> stands for the \<open>ValueError\<close>. White space around the literal is
  skipped, one sign is allowed, underscores are dropped. (CPython's limit on the number of
  digits of a literal is not modelled.)
\<close>

definition py_int :: "string \<Rightarrow> int option" where
  "py_int s =
     (let t = strip_where c_isspace s;
          body = (if take 1 t = ''-'' \<or> take 1 t = ''+'' then drop 1 t else t)
      in if literal_ok body
         then Some ((if take 1 t = ''-'' then - 1 else 1)
                    * int (digits_value (filter (\<lambda>c. c \<noteq> CHR ''_'') body)))
         else None)"

text \<open>
  \<open>urllib.parse.urlsplit\<close> and \<open>urlparse\<close>. Leading control characters and spaces are dropped,
  tabs and line breaks are removed everywhere; the scheme is the part before the first
  colon when it starts with a letter and consists of scheme characters; the network
  location follows \<open>//\<close> up to the next \<open>/\<close>, \<open>?\<close> or \<open>#\<close>; then the fragment and the query
  are cut off, and \<open>urlparse\<close> cuts the parameters off the last path segment. \<open>None\<close> stands
  for the \<open>ValueError\<close> of a network location with one bracket but not the other.
\<close>

record parse_result =
  scheme :: string
  netloc :: string
  upath :: string
  params :: string
  query :: string
  fragment :: string

definition scheme_chars :: "string" where
  "scheme_chars = ''abcdefghijklmnopqrstuvwxyzABCDEFGHIJKLMNOPQRSTUVWXYZ0123456789+-.''"

definition ascii_letters :: "string" where
  "ascii_letters = ''abcdefghijklmnopqrstuvwxyzABCDEFGHIJKLMNOPQRSTUVWXYZ''"

definition uses_params :: "string list" where
  "uses_params = [[], ''ftp'', ''hdl'', ''prospero'', ''http'', ''imap'', ''https'', ''shttp'',
                  ''rtsp'', ''rtspu'', ''sip'', ''sips'', ''mms'', ''sftp'', ''tel'']"

definition c0_control_or_space :: "char \<Rightarrow> bool" where
  "c0_control_or_space c = ((of_char c :: nat) \<le> 32)"

definition unsafe_url_byte :: "char \<Rightarrow> bool" where
  "unsafe_url_byte c = (c \<in> set [CHR 0x09, CHR 0x0D, CHR 0x0A])"

definition clean_url :: "string \<Rightarrow> string" where
  "clean_url url = filter (\<lambda>c. \<not> unsafe_url_byte c) (dropWhile c0_control_or_space url)"

definition split_scheme :: "string \<Rightarrow> string \<times> string" where
  "split_scheme url =
     (let pre = takeWhile (\<lambda>c. c \<noteq> CHR '':'') url
      in if CHR '':'' \<in> set url \<and> pre \<noteq> [] \<and> hd pre \<in> set ascii_letters
            \<and> list_all (\<lambda>c. c \<in> set scheme_chars) pre
         then (lower pre, drop (length pre + 1) url)
         else ([], url))"

definition netloc_end :: "char \<Rightarrow> bool" where
  "netloc_end c = (c \<in> set ''/?#'')"

definition split_netloc :: "string \<Rightarrow> string \<times> string" where
  "split_netloc url =
     (if take 2 url = ''//''
      then (takeWhile (\<lambda>c. \<not> netloc_end c) (drop 2 url),
            dropWhile (\<lambda>c. \<not> netloc_end c) (drop 2 url))
      else ([], url))"

text \<open>\<open>s.split(c, 1)\<close> when \<open>c\<close> occurs, and \<open>(s, "")\<close> when it does not.\<close>

definition split_once :: "char \<Rightarrow> string \<Rightarrow> string \<times> string" where
  "split_once c s = (takeWhile (\<lambda>x. x \<noteq> c) s, drop 1 (dropWhile (\<lambda>x. x \<noteq> c) s))"

definition urlsplit :: "string \<Rightarrow> parse_result option" where
  "urlsplit url0 =
     (let r1 = snd (split_scheme (clean_url url0));
          loc = fst (split_netloc r1);
          r3 = fst (split_once CHR ''#'' (snd (split_netloc r1)))
      in if (CHR ''['' \<in> set loc) \<noteq> (CHR '']'' \<in> set loc) then None
         else Some \<lparr>scheme = fst (split_scheme (clean_url url0)),
                    netloc = loc,
                    upath = fst (split_once CHR ''?'' r3),
                    params = [],
                    query = snd (split_once CHR ''?'' r3),
                    fragment = snd (split_once CHR ''#'' (snd (split_netloc r1)))\<rparr>)"

text \<open>
  \<open>_splitparams\<close>: the first semicolon of the last path segment starts the parameters.
\<close>

definition last_segment :: "string \<Rightarrow> string" where
  "last_segment p = rev (takeWhile (\<lambda>c. c \<noteq> CHR ''/'') (rev p))"

definition splitparams :: "string \<Rightarrow> string \<times> string" where
  "splitparams p =
     (take (length p - length (last_segment p)) p
        @ takeWhile (\<lambda>c. c \<noteq> CHR '';'') (last_segment p),
      drop 1 (dropWhile (\<lambda>c. c \<noteq> CHR '';'') (last_segment p)))"

definition urlparse :: "string \<Rightarrow> parse_result option" where
  "urlparse url =
     (case urlsplit url of
        None \<Rightarrow> None
      | Some r \<Rightarrow>
          (if scheme r \<in> set uses_params \<and> CHR '';'' \<in> set (upath r)
           then Some (r\<lparr>upath := fst (splitparams (upath r)),
                        params := snd (splitparams (upath r))\<rparr>)
           else Some r))"

text \<open>
  \<open>unquote\<close> after \<open>+\<close> has become a space: \<open>%XX\<close> with two hexadecimal digits is the
  character with that code, anything else stays.
\<close>

definition hex_val :: "char \<Rightarrow> nat option" where
  "hex_val c =
     map_of (zip ''0123456789abcdefABCDEF''
                 [0, 1, 2, 3, 4, 5, 6, 7, 8, 9, 10, 11, 12, 13, 14, 15, 10, 11, 12, 13, 14, 15]) c"

fun unquote :: "string \<Rightarrow> string" where
  "unquote (c # h # l # s) =
     (if c = CHR ''%'' then
        (case (hex_val h, hex_val l) of
           (Some a, Some b) \<Rightarrow> char_of (16 * a + b) # unquote s
         | _ \<Rightarrow> c # unquote (h # l # s))
      else c # unquote (h # l # s))"
| "unquote s = s"

definition unquote_plus :: "string \<Rightarrow> string" where
  "unquote_plus s = unquote (map (\<lambda>c. if c = CHR ''+'' then CHR '' '' else c) s)"

text \<open>
  \<open>parse_qsl\<close> with its defaults: the fields are separated by \<open>&\<close>; a field without \<open>=\<close> or
  with an empty value is dropped. \<open>parse_qs(q).get(key, [])\<close> is the list of the values of
  \<open>key\<close>, in order.
\<close>

definition parse_field :: "string \<Rightarrow> (string \<times> string) list" where
  "parse_field field =
     (if CHR ''='' \<in> set field \<and> snd (split_once CHR ''='' field) \<noteq> []
      then [(unquote_plus (fst (split_once CHR ''='' field)),
             unquote_plus (snd (split_once CHR ''='' field)))]
      else [])"

definition parse_qsl :: "string \<Rightarrow> (string \<times> string) list" where
  "parse_qsl qs = concat (map parse_field (split_on CHR ''&'' qs))"

definition qs_get :: "string \<Rightarrow> string \<Rightarrow> string list" where
  "qs_get qs key = map snd (filter (\<lambda>kv. fst kv = key) (parse_qsl qs))"

section \<open>Download candidates (nexus\_browser\_first.py)\<close>

definition TEMP_DOWNLOAD_EXTENSIONS :: "string list" where
  "TEMP_DOWNLOAD_EXTENSIONS = [''.crdownload'', ''.part'', ''.tmp'']"

definition is_temp_download :: "string \<Rightarrow> bool" where
  "is_temp_download path = (lower (path_suffix path) \<in> set TEMP_DOWNLOAD_EXTENSIONS)"

text \<open>
  The downloads directory over time. Time is counted in ticks of one second: a
  \<open>time.sleep(1.0)\<close> moves the clock on by one tick, and listing a directory or reading a
  file's size takes no time. At each tick the directory either does not exist (\<open>None\<close>) or
  holds a list of entries.
\<close>

record entry =
  path :: string
  is_file :: bool
  st_size :: nat
  st_mtime :: nat

type_synonym downloads_dir = "nat \<Rightarrow> entry list option"

definition entries_at :: "downloads_dir \<Rightarrow> nat \<Rightarrow> entry list" where
  "entries_at d t = (case d t of None \<Rightarrow> [] | Some es \<Rightarrow> es)"

definition list_candidate_files :: "downloads_dir \<Rightarrow> nat \<Rightarrow> string list" where
  "list_candidate_files d t = map path (filter is_file (entries_at d t))"

definition path_exists :: "downloads_dir \<Rightarrow> nat \<Rightarrow> string \<Rightarrow> bool" where
  "path_exists d t p = (p \<in> set (map path (entries_at d t)))"

definition stat_size :: "downloads_dir \<Rightarrow> nat \<Rightarrow> string \<Rightarrow> nat" where
  "stat_size d t p =
     (case filter (\<lambda>e. path e = p) (entries_at d t) of [] \<Rightarrow> 0 | e # _ \<Rightarrow> st_size e)"

definition stat_mtime :: "downloads_dir \<Rightarrow> nat \<Rightarrow> string \<Rightarrow> nat" where
  "stat_mtime d t p =
     (case filter (\<lambda>e. path e = p) (entries_at d t) of [] \<Rightarrow> 0 | e # _ \<Rightarrow> st_mtime e)"

text \<open>
  The sampling loop of \<open>wait_until_file_is_stable\<close>: \<open>checks\<close> rounds, each reading the size
  and then sleeping one tick; a file that has gone away ends the loop with \<open>None\<close>. The
  result carries the clock.
\<close>

fun sample_sizes :: "downloads_dir \<Rightarrow> string \<Rightarrow> nat \<Rightarrow> nat \<Rightarrow> nat list \<Rightarrow> nat list option \<times> nat" where
  "sample_sizes d p 0 t sizes = (Some sizes, t)"
| "sample_sizes d p (Suc k) t sizes =
     (if \<not> path_exists d t p then (None, t)
      else sample_sizes d p k (t + 1) (sizes @ [stat_size d t p]))"

definition wait_until_file_is_stable :: "downloads_dir \<Rightarrow> string \<Rightarrow> nat \<Rightarrow> bool \<times> nat" where
  "wait_until_file_is_stable d p t =
     (if \<not> path_exists d t p \<or> is_temp_download p then (False, t)
      else (case sample_sizes d p 3 t [] of
              (None, t') \<Rightarrow> (False, t')
            | (Some sizes, t') \<Rightarrow> (card (set sizes) = 1, t')))"

text \<open>The \<open>for path in sorted(...)\<close> loop: the first stable file wins.\<close>

fun first_stable :: "downloads_dir \<Rightarrow> string list \<Rightarrow> nat \<Rightarrow> string option \<times> nat" where
  "first_stable d [] t = (None, t)"
| "first_stable d (p # ps) t =
     (if fst (wait_until_file_is_stable d p t) then (Some p, snd (wait_until_file_is_stable d p t))
      else first_stable d ps (snd (wait_until_file_is_stable d p t)))"

text \<open>
  \<open>new_files\<close> of one round: the files listed now that are not in the baseline and are not
  temporary, newest first (a stable sort on the modification time, descending).
\<close>

definition new_files :: "downloads_dir \<Rightarrow> string set \<Rightarrow> nat \<Rightarrow> string list" where
  "new_files d baseline t =
     sort_key (\<lambda>p. - int (stat_mtime d t p))
       (filter (\<lambda>p. p \<notin> baseline \<and> \<not> is_temp_download p) (remdups (list_candidate_files d t)))"

lemma sample_sizes_clock: "t \<le> snd (sample_sizes d p k t sizes)"
proof (induction k arbitrary: t sizes)
  case 0
  show ?case by simp
next
  case (Suc k)
  have "t + 1 \<le> snd (sample_sizes d p k (t + 1) (sizes @ [stat_size d t p]))"
    by (rule Suc.IH)
  then show ?case by simp
qed

lemma wait_until_file_is_stable_clock: "t \<le> snd (wait_until_file_is_stable d p t)"
proof (cases "\<not> path_exists d t p \<or> is_temp_download p")
  case True
  then show ?thesis by (simp add: wait_until_file_is_stable_def)
next
  case False
  obtain r t' where r: "sample_sizes d p 3 t [] = (r, t')"
    by (cases "sample_sizes d p 3 t []")
  have "t \<le> t'"
    using sample_sizes_clock [of t d p 3 "[]"] r by simp
  with False r show ?thesis
    by (cases r) (simp_all add: wait_until_file_is_stable_def)
qed

lemma first_stable_clock: "t \<le> snd (first_stable d ps t)"
proof (induction ps arbitrary: t)
  case Nil
  show ?case by simp
next
  case (Cons p ps)
  have a: "t \<le> snd (wait_until_file_is_stable d p t)"
    by (rule wait_until_file_is_stable_clock)
  have b: "snd (wait_until_file_is_stable d p t)
             \<le> snd (first_stable d ps (snd (wait_until_file_is_stable d p t)))"
    by (rule Cons.IH)
  from a b show ?case by simp
qed

text \<open>
  \<open>wait_for_new_completed_download\<close>: the loop runs until a new file is stable or the clock
  has passed \<open>start + timeout_sec\<close>; every round without a result sleeps one tick, so the
  loop ends.
\<close>

function wait_for_new_completed_download ::
  "downloads_dir \<Rightarrow> string set \<Rightarrow> nat \<Rightarrow> nat \<Rightarrow> nat \<Rightarrow> string option" where
  "wait_for_new_completed_download d baseline timeout_sec start t =
     (if fst (first_stable d (new_files d baseline t) t) \<noteq> None
      then fst (first_stable d (new_files d baseline t) t)
      else if snd (first_stable d (new_files d baseline t) t) - start > timeout_sec then None
      else wait_for_new_completed_download d baseline timeout_sec start
             (snd (first_stable d (new_files d baseline t) t) + 1))"
  by pat_completeness auto
termination
proof (relation "measure (\<lambda>(d, baseline, timeout_sec, start, t). start + timeout_sec + 1 - t)")
  show "wf (measure (\<lambda>(d, baseline, timeout_sec, start, t). start + timeout_sec + 1 - t))"
    by simp
next
  fix d :: downloads_dir and baseline :: "string set" and timeout_sec start t :: nat
  assume "\<not> timeout_sec < snd (first_stable d (new_files d baseline t) t) - start"
  moreover have "t \<le> snd (first_stable d (new_files d baseline t) t)"
    by (rule first_stable_clock)
  ultimately show
    "((d, baseline, timeout_sec, start, snd (first_stable d (new_files d baseline t) t) + 1),
      (d, baseline, timeout_sec, start, t))
       \<in> measure (\<lambda>(d, baseline, timeout_sec, start, t). start + timeout_sec + 1 - t)"
    by simp
qed


section \<open>URL Normalizer (nexus\_browser\_first.py)\<close>

text \<open>
  \<open>MOD_PATH_RE = ^/[^/]+/mods/\d+/?$\<close>, matched without regard to case: a slash, a
  non-empty segment without a slash, \<open>/mods/\<close>, one or more digits, an optional slash, and
  then the end of the string (which \<open>$\<close> also finds before one final line break).
\<close>

definition MOD_PATH_RE_match :: "string \<Rightarrow> bool" where
  "MOD_PATH_RE_match p =
     (let seg = takeWhile (\<lambda>c. c \<noteq> CHR ''/'') (drop 1 p);
          r1 = dropWhile (\<lambda>c. c \<noteq> CHR ''/'') (drop 1 p);
          ds = takeWhile is_digit (drop 6 r1);
          r2 = dropWhile is_digit (drop 6 r1)
      in take 1 p = ''/'' \<and> seg \<noteq> [] \<and> lower (take 6 r1) = ''/mods/'' \<and> ds \<noteq> []
         \<and> r2 \<in> set [[], ''/'', [CHR 0x0A], [CHR ''/'', CHR 0x0A]])"

definition urlencode_tab_files :: "int \<Rightarrow> string" where
  "urlencode_tab_files file_id = ''tab=files&file_id='' @ str_int file_id"

text \<open>
  \<open>normalize_mod_target_url\<close>: \<open>None\<close> is the source's \<open>None\<close>. The file id is the first
  \<open>file_id\<close> value of the query when \<open>int()\<close> accepts it.
\<close>

definition query_file_id :: "string \<Rightarrow> int option" where
  "query_file_id qs = (case qs_get qs ''file_id'' of [] \<Rightarrow> None | v # _ \<Rightarrow> py_int v)"

definition normalize_mod_target_url :: "string \<Rightarrow> string option" where
  "normalize_mod_target_url url =
     (case urlparse url of
        None \<Rightarrow> None
      | Some parsed \<Rightarrow>
          if scheme parsed \<notin> set [''http'', ''https''] then None
          else if lower (netloc parsed) \<notin> set [''www.nexusmods.com'', ''nexusmods.com''] then None
          else if \<not> MOD_PATH_RE_match (rstrip_char CHR ''/'' (upath parsed)) then None
          else (case query_file_id (query parsed) of
                  None \<Rightarrow> Some (''https://www.nexusmods.com'' @ rstrip_char CHR ''/'' (upath parsed))
                | Some file_id \<Rightarrow>
                    if file_id > 0
                    then Some (''https://www.nexusmods.com'' @ rstrip_char CHR ''/'' (upath parsed)
                               @ ''?'' @ urlencode_tab_files file_id)
                    else Some (''https://www.nexusmods.com'' @ rstrip_char CHR ''/'' (upath parsed))))"

text \<open>
  \<open>parse_mod_target\<close> returns the triple (domain, mod id, file id), each possibly \<open>None\<close>.
  Its own call of \<open>urlparse\<close> is not guarded: the outer \<open>None\<close> of the model is a
  \<open>ValueError\<close> leaving the function.
\<close>

type_synonym mod_target = "string option \<times> int option \<times> int option"

definition parse_mod_target :: "string \<Rightarrow> mod_target option" where
  "parse_mod_target url =
     (case normalize_mod_target_url url of
        None \<Rightarrow> Some (None, None, None)
      | Some normalized \<Rightarrow>
          if normalized = [] then Some (None, None, None)
          else (case urlparse normalized of
                  None \<Rightarrow> None
                | Some parsed \<Rightarrow>
                    (case split_on CHR ''/'' (strip_char CHR ''/'' (upath parsed)) of
                       p0 # p1 # p2 # _ \<Rightarrow>
                         if p1 \<noteq> ''mods'' then Some (None, None, None)
                         else (case py_int p2 of
                                 None \<Rightarrow> Some (None, None, None)
                               | Some mod_id \<Rightarrow>
                                   Some (Some (lower p0), Some mod_id,
                                         query_file_id (query parsed)))
                     | _ \<Rightarrow> Some (None, None, None))))"

text \<open>
  \<open>dedupe_links\<close>: the loop keeps the set \<open>seen\<close> and the list \<open>out\<close>.
\<close>

fun dedupe_loop :: "string list \<Rightarrow> string set \<Rightarrow> string list \<Rightarrow> string list" where
  "dedupe_loop [] seen out = out"
| "dedupe_loop (link # links) seen out =
     (case normalize_mod_target_url link of
        None \<Rightarrow> dedupe_loop links seen out
      | Some canonical \<Rightarrow>
          if canonical \<in> seen then dedupe_loop links seen out
          else dedupe_loop links (insert canonical seen) (out @ [canonical]))"

definition dedupe_links :: "string list \<Rightarrow> string list" where
  "dedupe_links links = dedupe_loop links {} []"

text \<open>
  The end of \<open>collect_links_via_network\<close>: the links of every parsed payload (each the
  result of \<open>links_from_collection_payload\<close>) are joined and deduplicated. \<open>extract_mod_links\<close>
  keeps the hyperlinks that normalize and deduplicates them.
\<close>

record ExtractionResult =
  links :: "string list"
  strategy :: string

definition collect_links_via_network :: "string list list \<Rightarrow> ExtractionResult" where
  "collect_links_via_network payload_links =
     \<lparr>links = dedupe_links (concat payload_links), strategy = ''network_graphql''\<rparr>"

definition extract_mod_links :: "string list \<Rightarrow> string list" where
  "extract_mod_links hrefs =
     dedupe_links (concat (map (\<lambda>href. case normalize_mod_target_url href of
                                          None \<Rightarrow> [] | Some target \<Rightarrow> [target]) hrefs))"

text \<open>
  The link \<open>links_from_collection_payload\<close> builds for one entry of \<open>modFiles\<close>, from the
  collection's domain, the entry's mod id and its file id when there is one: the file id
  is written only when it is positive.
\<close>

definition payload_link :: "string \<Rightarrow> int \<Rightarrow> int option \<Rightarrow> string" where
  "payload_link domain mod_id_int file_id_int =
     (case file_id_int of
        None \<Rightarrow> ''https://www.nexusmods.com/'' @ domain @ ''/mods/'' @ str_int mod_id_int
      | Some f \<Rightarrow>
          if f > 0
          then ''https://www.nexusmods.com/'' @ domain @ ''/mods/'' @ str_int mod_id_int
                 @ ''?'' @ urlencode_tab_files f
          else ''https://www.nexusmods.com/'' @ domain @ ''/mods/'' @ str_int mod_id_int)"

text \<open>
  A domain in plain spelling: not empty, in lower case, one path segment (no slash), and
  free of the characters that end a path or that \<open>urlsplit\<close> removes.
\<close>

definition plain_domain :: "string \<Rightarrow> bool" where
  "plain_domain d =
     (d \<noteq> [] \<and> lower d = d
      \<and> list_all (\<lambda>c. c \<noteq> CHR ''/'' \<and> c \<noteq> CHR ''?'' \<and> c \<noteq> CHR ''#'' \<and> \<not> unsafe_url_byte c) d)"

text \<open>The file id a link carries: a positive one, or none.\<close>

definition positive_file_id :: "int option \<Rightarrow> int option" where
  "positive_file_id file_id = (case file_id of None \<Rightarrow> None | Some f \<Rightarrow> if f > 0 then Some f else None)"

section \<open>Archive names and errors (nexus\_browser\_first.py)\<close>

text \<open>
  \<open>SUSPICIOUS_FILENAME_RE\<close>: five groups of 8, 4, 4, 4 and 12 hexadecimal digits (either
  case), joined by hyphens, up to the end of the string or one final line break.
\<close>

definition is_hex :: "char \<Rightarrow> bool" where
  "is_hex c = (c \<in> set ''0123456789abcdefABCDEF'')"

fun hex_groups :: "nat list \<Rightarrow> string \<Rightarrow> string option" where
  "hex_groups [] s = Some s"
| "hex_groups [n] s =
     (if n \<le> length s \<and> list_all is_hex (take n s) then Some (drop n s) else None)"
| "hex_groups (n # m # ns) s =
     (if n < length s \<and> list_all is_hex (take n s) \<and> s ! n = CHR ''-''
      then hex_groups (m # ns) (drop (n + 1) s) else None)"

definition SUSPICIOUS_FILENAME_RE_match :: "string \<Rightarrow> bool" where
  "SUSPICIOUS_FILENAME_RE_match s =
     (case hex_groups [8, 4, 4, 4, 12] s of
        None \<Rightarrow> False
      | Some r \<Rightarrow> r = [] \<or> r = [CHR 0x0A])"

definition has_archive_extension :: "string \<Rightarrow> bool" where
  "has_archive_extension nm =
     (endswith (lower nm) ''.zip'' \<or> endswith (lower nm) ''.7z'' \<or> endswith (lower nm) ''.rar'')"

definition is_good_archive_name :: "string \<Rightarrow> bool" where
  "is_good_archive_name nm =
     (if has_archive_extension nm then True
      else if SUSPICIOUS_FILENAME_RE_match (path_name nm) then False
      else False)"

text \<open>An exception is kept as its message, \<open>str(exc)\<close>.\<close>

definition is_ssl_verify_error :: "string \<Rightarrow> bool" where
  "is_ssl_verify_error exc =
     (contains (lower exc) ''certificate verify failed''
      \<or> contains (lower exc) ''self-signed certificate'')"

text \<open>
  The specification's words for \<open>dedupe\<close>, to compare the loop with: normalize each link,
  drop the ones that are refused, keep the first occurrence of each canonical target, in
  order.
\<close>

fun keep_first_occurrences :: "'a list \<Rightarrow> 'a list" where
  "keep_first_occurrences [] = []"
| "keep_first_occurrences (x # xs) = x # keep_first_occurrences (filter (\<lambda>y. y \<noteq> x) xs)"

definition dedupe_spec :: "string list \<Rightarrow> string list" where
  "dedupe_spec ls = keep_first_occurrences (List.map_filter normalize_mod_target_url ls)"

section \<open>Download Resolver: process\_mod (nexus\_browser\_first.py)\<close>

record ItemResult =
  index :: int
  mod_url :: string
  status :: string
  reason :: string

definition COOKIE_SELECTORS :: "string list" where
  "COOKIE_SELECTORS =
     [''button:has-text('Accept')'', ''button:has-text('Accept all')'',
      ''button:has-text('I agree')'']"

definition MANUAL_SELECTORS :: "string list" where
  "MANUAL_SELECTORS =
     [''button:has-text('Manual'):visible'', ''a:has-text('Manual'):visible'',
      ''button:has-text('Manual download'):visible'', ''a:has-text('Manual download'):visible'']"

definition SLOW_SELECTORS :: "string list" where
  "SLOW_SELECTORS =
     [''button:has-text('Slow download'):visible'', ''a:has-text('Slow download'):visible'',
      ''text=Slow download'', ''button:has-text('Free download'):visible'',
      ''a:has-text('Free download'):visible'']"

definition MANUAL_LINK_SELECTORS :: "string list" where
  "MANUAL_LINK_SELECTORS =
     [''a:has-text('click here to download manually'):visible'',
      ''a:has-text('download manually'):visible'']"

text \<open>
  What the resolver does to the outside, in order: the two requests of the direct path
  (with the flag \<open>True\<close> for the unverified TLS context), navigation, a search for the first
  visible selector of a list (\<open>click_first_visible\<close>), the download listener, the baseline
  listing and the poll of the downloads directory.
\<close>

datatype action =
    ResolveUrl bool
  | DirectDownload bool
  | Goto string
  | Click "string list"
  | Baseline
  | AddListener
  | RemoveListener
  | PollDownloads

text \<open>
  One round of the completion loop sees the lists the listener has filled so far, whether
  the interstitial text is visible, and what the poll of the downloads directory returns.
\<close>

record poll =
  saved_downloads :: "string list"
  seen_downloads :: "string list"
  download_errors :: "string list"
  started_visible :: bool
  completed_file :: "string option"

text \<open>
  The outside world of one call: the answers of the site to the direct path (an exception
  message on the left, the value on the right), the outcome of the two navigation attempts
  (\<open>Some\<close> message for an exception), what the three selector searches of the click sequence
  return, the rounds of the completion loop that fit before its deadline, and the listener's
  error list when the deadline has passed.
\<close>

record world =
  resolve_download_url :: "bool \<Rightarrow> string \<Rightarrow> string \<Rightarrow> int \<Rightarrow> int \<Rightarrow> string + string"
  direct_download :: "bool \<Rightarrow> string \<Rightarrow> string \<Rightarrow> string + string"
  goto :: "nat \<Rightarrow> string option"
  click_slow_first :: "string option"
  click_manual :: "string option"
  click_slow_second :: "string option"
  polls :: "poll list"
  final_download_errors :: "string list"

text \<open>Python's truth value of an optional string and of an optional integer.\<close>

definition truthy_str :: "string option \<Rightarrow> bool" where
  "truthy_str x = (case x of None \<Rightarrow> False | Some s \<Rightarrow> s \<noteq> [])"

definition truthy_int :: "int option \<Rightarrow> bool" where
  "truthy_int x = (case x of None \<Rightarrow> False | Some i \<Rightarrow> i \<noteq> 0)"

definition files_url_of :: "string \<Rightarrow> string" where
  "files_url_of url = (if contains url ''file_id='' then url else url @ ''?tab=files'')"

definition fallback_name :: "string \<Rightarrow> int \<Rightarrow> int \<Rightarrow> string" where
  "fallback_name domain_name mod_id file_id =
     domain_name @ ''-'' @ str_int mod_id @ ''-'' @ str_int file_id @ ''.zip''"

text \<open>
  One run of the direct path with a given TLS context: resolve the download URL, then
  download it. Either request can raise.
\<close>

definition direct_attempt ::
  "world \<Rightarrow> bool \<Rightarrow> string \<Rightarrow> string \<Rightarrow> int \<Rightarrow> int \<Rightarrow> string \<Rightarrow> (string + string) \<times> action list" where
  "direct_attempt w insecure cookie_header files_url game_id file_id fallback =
     (case resolve_download_url w insecure cookie_header files_url game_id file_id of
        Inl e \<Rightarrow> (Inl e, [ResolveUrl insecure])
      | Inr direct_url \<Rightarrow>
          (case direct_download w insecure direct_url fallback of
             Inl e \<Rightarrow> (Inl e, [ResolveUrl insecure, DirectDownload insecure])
           | Inr downloaded \<Rightarrow> (Inr downloaded, [ResolveUrl insecure, DirectDownload insecure])))"

definition direct_result :: "string \<Rightarrow> string \<Rightarrow> string \<Rightarrow> ItemResult" where
  "direct_result url prefix downloaded =
     (if is_good_archive_name (path_name downloaded)
      then \<lparr>index = 0, mod_url = url, status = ''ok'', reason = prefix @ downloaded\<rparr>
      else \<lparr>index = 0, mod_url = url, status = ''partial'',
             reason = ''direct_download_suspicious:'' @ path_name downloaded\<rparr>)"

text \<open>
  The direct path with its retry. \<open>None\<close> as the result: nothing was returned, the click
  flow follows.
\<close>

definition direct_path ::
  "world \<Rightarrow> string \<Rightarrow> string \<Rightarrow> string \<Rightarrow> int \<Rightarrow> int \<Rightarrow> string \<Rightarrow> ItemResult option \<times> action list" where
  "direct_path w url cookie_header files_url game_id file_id fallback =
     (case direct_attempt w False cookie_header files_url game_id file_id fallback of
        (Inr downloaded, tr) \<Rightarrow> (Some (direct_result url ''direct_download:'' downloaded), tr)
      | (Inl e, tr) \<Rightarrow>
          if is_ssl_verify_error e
          then (case direct_attempt w True cookie_header files_url game_id file_id fallback of
                  (Inr downloaded, tr2) \<Rightarrow>
                    (Some (direct_result url ''direct_download_insecure_ssl:'' downloaded), tr @ tr2)
                | (Inl e2, tr2) \<Rightarrow> (None, tr @ tr2))
          else (None, tr))"

text \<open>Navigation to the files tab: two attempts; the second error is the one reported.\<close>

definition navigate :: "world \<Rightarrow> string \<Rightarrow> string option \<times> action list" where
  "navigate w files_url =
     (case goto w 0 of
        None \<Rightarrow> (None, [Goto files_url])
      | Some e0 \<Rightarrow>
          (case goto w 1 of
             None \<Rightarrow> (None, [Goto files_url, Goto files_url])
           | Some e1 \<Rightarrow> (Some e1, [Goto files_url, Goto files_url])))"

text \<open>
  The completion loop (\<open>while time.time() < deadline\<close>): one equation per round, the flag is
  \<open>manual_retry_used\<close>. When the rounds are used up the deadline has passed.
\<close>

fun completion_loop :: "string \<Rightarrow> string list \<Rightarrow> poll list \<Rightarrow> bool \<Rightarrow> ItemResult \<times> action list" where
  "completion_loop url final_errors [] used =
     (if final_errors \<noteq> []
      then (\<lparr>index = 0, mod_url = url, status = ''partial'',
              reason = ''download_save_error:'' @ last final_errors\<rparr>, [RemoveListener])
      else (\<lparr>index = 0, mod_url = url, status = ''partial'',
              reason = ''download_signal_not_detected_in_time''\<rparr>, [RemoveListener]))"
| "completion_loop url final_errors (p # ps) used =
     (if saved_downloads p \<noteq> []
      then (\<lparr>index = 0, mod_url = url, status = ''ok'',
              reason = ''download_saved:'' @ last (saved_downloads p)\<rparr>, [RemoveListener])
      else if seen_downloads p \<noteq> [] \<and> \<not> is_good_archive_name (last (seen_downloads p))
      then (if \<not> used
            then (fst (completion_loop url final_errors ps True),
                  Click MANUAL_LINK_SELECTORS # snd (completion_loop url final_errors ps True))
            else (\<lparr>index = 0, mod_url = url, status = ''partial'',
                    reason = ''suspicious_download_filename:'' @ last (seen_downloads p)\<rparr>,
                  [RemoveListener]))
      else if started_visible p \<and> \<not> used
      then (fst (completion_loop url final_errors ps True),
            Click MANUAL_LINK_SELECTORS # snd (completion_loop url final_errors ps True))
      else (case completed_file p of
              Some downloaded \<Rightarrow>
                (\<lparr>index = 0, mod_url = url, status = ''ok'',
                   reason = ''download_file_detected:'' @ path_name downloaded\<rparr>,
                 [PollDownloads, RemoveListener])
            | None \<Rightarrow>
                (fst (completion_loop url final_errors ps used),
                 PollDownloads # snd (completion_loop url final_errors ps used))))"

text \<open>
  The click sequence and what follows it, from the registration of the listener on.
\<close>

definition click_sequence :: "world \<Rightarrow> string \<Rightarrow> bool \<Rightarrow> ItemResult \<times> action list" where
  "click_sequence w url verify_downloads =
     (if \<not> truthy_str (click_slow_first w)
      then (if \<not> truthy_str (click_manual w)
            then (\<lparr>index = 0, mod_url = url, status = ''fallback_needed'',
                    reason = ''manual_button_not_found''\<rparr>,
                  [AddListener, Click SLOW_SELECTORS, Click MANUAL_SELECTORS, RemoveListener])
            else if \<not> truthy_str (click_slow_second w)
            then (\<lparr>index = 0, mod_url = url, status = ''partial'',
                    reason = ''download_confirmation_button_not_found''\<rparr>,
                  [AddListener, Click SLOW_SELECTORS, Click MANUAL_SELECTORS,
                   Click SLOW_SELECTORS, RemoveListener])
            else if verify_downloads
            then (fst (completion_loop url (final_download_errors w) (polls w) False),
                  [AddListener, Click SLOW_SELECTORS, Click MANUAL_SELECTORS, Click SLOW_SELECTORS]
                    @ snd (completion_loop url (final_download_errors w) (polls w) False))
            else (\<lparr>index = 0, mod_url = url, status = ''ok'', reason = ''manual_and_slow_clicked''\<rparr>,
                  [AddListener, Click SLOW_SELECTORS, Click MANUAL_SELECTORS,
                   Click SLOW_SELECTORS, RemoveListener]))
      else if verify_downloads
      then (fst (completion_loop url (final_download_errors w) (polls w) False),
            [AddListener, Click SLOW_SELECTORS]
              @ snd (completion_loop url (final_download_errors w) (polls w) False))
      else (\<lparr>index = 0, mod_url = url, status = ''ok'', reason = ''manual_and_slow_clicked''\<rparr>,
            [AddListener, Click SLOW_SELECTORS, RemoveListener]))"

text \<open>
  The click fallback: navigation, the cookie banner, the dry-run exit, the baseline, and the
  click sequence.
\<close>

definition click_fallback ::
  "world \<Rightarrow> string \<Rightarrow> string \<Rightarrow> bool \<Rightarrow> bool \<Rightarrow> ItemResult \<times> action list" where
  "click_fallback w url files_url dry_run verify_downloads =
     (case navigate w files_url of
        (Some nav_error, tr) \<Rightarrow>
          (\<lparr>index = 0, mod_url = url, status = ''fail'',
             reason = ''navigation_error: '' @ nav_error\<rparr>, tr)
      | (None, tr) \<Rightarrow>
          if dry_run
          then (\<lparr>index = 0, mod_url = url, status = ''dry_run'', reason = ''navigation_only''\<rparr>,
                tr @ [Click COOKIE_SELECTORS])
          else (fst (click_sequence w url verify_downloads),
                tr @ [Click COOKIE_SELECTORS] @ (if verify_downloads then [Baseline] else [])
                   @ snd (click_sequence w url verify_downloads)))"

text \<open>
  \<open>process_mod\<close>. The direct path is tried when verification is on and the cookie header,
  the game id, the file id, the mod id and the domain are all known (and true in Python's
  sense); when it returns nothing the click fallback runs. The outer \<open>None\<close> is the
  \<open>ValueError\<close> of \<open>parse_mod_target\<close>.
\<close>

definition direct_args ::
  "bool \<Rightarrow> string option \<Rightarrow> int option \<Rightarrow> mod_target
     \<Rightarrow> (string \<times> int \<times> string \<times> int \<times> int) option" where
  "direct_args verify_downloads cookie_header game_id target =
     (case (cookie_header, game_id, target) of
        (Some cookie, Some game, Some domain_name, Some mod_id, Some file_id) \<Rightarrow>
          if verify_downloads \<and> cookie \<noteq> [] \<and> game \<noteq> 0 \<and> file_id \<noteq> 0 \<and> mod_id \<noteq> 0
             \<and> domain_name \<noteq> []
          then Some (cookie, game, domain_name, mod_id, file_id)
          else None
      | _ \<Rightarrow> None)"

definition process_target ::
  "world \<Rightarrow> string \<Rightarrow> bool \<Rightarrow> bool \<Rightarrow> string option \<Rightarrow> int option \<Rightarrow> mod_target
     \<Rightarrow> ItemResult \<times> action list" where
  "process_target w url dry_run verify_downloads cookie_header game_id target =
     (case direct_args verify_downloads cookie_header game_id target of
        Some (cookie, game, domain_name, mod_id, file_id) \<Rightarrow>
          (case direct_path w url cookie (files_url_of url) game file_id
                  (fallback_name domain_name mod_id file_id) of
             (Some item, tr) \<Rightarrow> (item, tr)
           | (None, tr) \<Rightarrow>
               (fst (click_fallback w url (files_url_of url) dry_run verify_downloads),
                tr @ snd (click_fallback w url (files_url_of url) dry_run verify_downloads)))
      | None \<Rightarrow> click_fallback w url (files_url_of url) dry_run verify_downloads)"

definition process_mod ::
  "world \<Rightarrow> string \<Rightarrow> bool \<Rightarrow> bool \<Rightarrow> string option \<Rightarrow> int option
     \<Rightarrow> (ItemResult \<times> action list) option" where
  "process_mod w url dry_run verify_downloads cookie_header game_id =
     (case parse_mod_target url of
        None \<Rightarrow> None
      | Some target \<Rightarrow>
          Some (process_target w url dry_run verify_downloads cookie_header game_id target))"

section \<open>Run Orchestrator (auto\_que.py) and the Install Stager's input (v3\_install.py)\<close>

text \<open>
  \<open>str(Path(s))\<close>: the components that are neither empty nor \<open>.\<close>, joined by \<open>/\<close> behind
  the root (\<open>/\<close>, or \<open>//\<close> for exactly two leading slashes); the empty path prints as \<open>.\<close>.
\<close>

fun join_slash :: "string list \<Rightarrow> string" where
  "join_slash [] = []"
| "join_slash [w] = w"
| "join_slash (w # v # ws) = w @ ''/'' @ join_slash (v # ws)"

definition path_root :: "string \<Rightarrow> string" where
  "path_root s =
     (if take 2 s = ''//'' \<and> take 3 s \<noteq> ''///'' then ''//''
      else if take 1 s = ''/'' then ''/'' else [])"

definition Path :: "string \<Rightarrow> string" where
  "Path s = (if path_root s = [] \<and> path_parts s = [] then ''.''
             else path_root s @ join_slash (path_parts s))"

definition download_prefixes :: "string list" where
  "download_prefixes = [''download_saved:'', ''direct_download:'', ''direct_download_insecure_ssl:'']"

fun find_prefixed :: "string list \<Rightarrow> string \<Rightarrow> string option" where
  "find_prefixed [] r = None"
| "find_prefixed (prefix # prefixes) r =
     (if startswith r prefix then Some (Path (py_strip (drop (length prefix) r)))
      else find_prefixed prefixes r)"

definition find_download_path :: "string \<Rightarrow> string option" where
  "find_download_path r = find_prefixed download_prefixes r"

record StageSettings =
  dry_run :: bool
  verify_downloads :: bool
  max_mods :: nat
  skip_install :: bool







section \<open>The two entry points and their completion codes\<close>

text \<open>
  How the \<open>try\<close> block of a \<open>main\<close> ends: normally, by a \<open>KeyboardInterrupt\<close>, or by another
  exception with its message.
\<close>

datatype raised = NoError | KeyboardInterrupt | Exception string

record RunReport =
  run_id :: string
  collection_url :: string
  queue_count :: nat
  results :: "ItemResult list"
  interrupted :: bool
  fatal_error :: "string option"
  install_ok :: nat
  install_fail :: nat

record MainOutcome =
  exit_code :: int
  json_log :: "RunReport option"
  txt_log :: "string list option"

definition count_status :: "string \<Rightarrow> ItemResult list \<Rightarrow> nat" where
  "count_status s rs = length (filter (\<lambda>r. status r = s) rs)"

definition build_summary_lines :: "RunReport \<Rightarrow> string \<Rightarrow> string list" where
  "build_summary_lines run_data json_path =
     [''run_id: '' @ run_id run_data,
      ''collection_url: '' @ collection_url run_data,
      ''queue_count: '' @ str_nat (queue_count run_data),
      ''ok: '' @ str_nat (count_status ''ok'' (results run_data)),
      ''fallback_needed: '' @ str_nat (count_status ''fallback_needed'' (results run_data)),
      ''partial: '' @ str_nat (count_status ''partial'' (results run_data)),
      ''fail: '' @ str_nat (count_status ''fail'' (results run_data)),
      ''dry_run: '' @ str_nat (count_status ''dry_run'' (results run_data)),
      ''json_log: '' @ json_path]"

definition batch_summary :: "RunReport \<Rightarrow> string \<Rightarrow> string list" where
  "batch_summary run_data json_path =
     [''run_id: '' @ run_id run_data,
      ''collection_url: '' @ collection_url run_data,
      ''queue_count: '' @ str_nat (queue_count run_data),
      ''ok: '' @ str_nat (count_status ''ok'' (results run_data)),
      ''partial: '' @ str_nat (count_status ''partial'' (results run_data)),
      ''fallback_needed: '' @ str_nat (count_status ''fallback_needed'' (results run_data)),
      ''fail: '' @ str_nat (count_status ''fail'' (results run_data)),
      ''dry_run: '' @ str_nat (count_status ''dry_run'' (results run_data)),
      ''install_ok: '' @ str_nat (install_ok run_data),
      ''install_fail: '' @ str_nat (install_fail run_data),
      ''json_log: '' @ json_path]"

text \<open>
  \<open>main\<close> of nexus\_browser\_first.py. \<open>valid\<close>: the collection URL matches
  \<open>COLLECTION_URL_RE\<close>. \<open>json_path\<close> is the path of the JSON log;
  \<open>run_data\<close> is the report as the \<open>try\<close> block left it (no
  \<open>fatal_error\<close> yet); the handlers fill in the error, both logs are written, and the code
  is 130 after an interrupt, 1 when \<open>fatal_error\<close> is a non-empty string, 0 otherwise.
\<close>

definition browser_first_main :: "bool \<Rightarrow> string \<Rightarrow> RunReport \<Rightarrow> raised \<Rightarrow> MainOutcome" where
  "browser_first_main valid json_path run_data r =
     (if \<not> valid then \<lparr>exit_code = 2, json_log = None, txt_log = None\<rparr>
      else
        (let final =
               (case r of
                  NoError \<Rightarrow> run_data\<lparr>interrupted := False, fatal_error := None\<rparr>
                | KeyboardInterrupt \<Rightarrow>
                    run_data\<lparr>interrupted := True,
                             fatal_error := Some ''Interrupted by user (Ctrl+C)''\<rparr>
                | Exception e \<Rightarrow> run_data\<lparr>interrupted := False, fatal_error := Some e\<rparr>)
         in \<lparr>exit_code = (if r = KeyboardInterrupt then 130
                          else if truthy_str (fatal_error final) then 1 else 0),
             json_log = Some final,
             txt_log = Some (build_summary_lines final json_path)\<rparr>))"

text \<open>
  \<open>main\<close> of auto\_que.py. \<open>setup\<close> is how \<open>resolve_settings\<close> ends: an interrupt there
  returns 130 and any other error 2, both before a report exists. After the \<open>try\<close> block
  both handlers only set \<open>fatal_error\<close>; the logs are written and the code is 1 when
  \<open>fatal_error\<close> is a non-empty string, 0 otherwise.
\<close>

definition auto_que_main :: "raised \<Rightarrow> string \<Rightarrow> RunReport \<Rightarrow> raised \<Rightarrow> MainOutcome" where
  "auto_que_main setup json_path run_data r =
     (case setup of
        KeyboardInterrupt \<Rightarrow> \<lparr>exit_code = 130, json_log = None, txt_log = None\<rparr>
      | Exception e \<Rightarrow> \<lparr>exit_code = 2, json_log = None, txt_log = None\<rparr>
      | NoError \<Rightarrow>
          (let final =
                 (case r of
                    NoError \<Rightarrow> run_data\<lparr>interrupted := False, fatal_error := None\<rparr>
                  | KeyboardInterrupt \<Rightarrow>
                      run_data\<lparr>interrupted := False,
                               fatal_error := Some ''Interrupted by user (Ctrl+C)''\<rparr>
                  | Exception e \<Rightarrow> run_data\<lparr>interrupted := False, fatal_error := Some e\<rparr>)
           in \<lparr>exit_code = (if truthy_str (fatal_error final) then 1 else 0),
               json_log = Some final,
               txt_log = Some (batch_summary final json_path)\<rparr>))"

section \<open>Concrete inputs used below\<close>

text \<open>
  A downloads directory that holds nothing but \<open>report.crdownload\<close>, growing with every
  tick.
\<close>

definition report_dir :: downloads_dir where
  "report_dir t =
     Some [\<lparr>path = ''report.crdownload'', is_file = True, st_size = 1000 * t, st_mtime = t\<rparr>]"

text \<open>
  Worlds. In \<open>silent_world\<close> the site refuses the direct path with an HTTP error, the page
  loads, and no control is found. The others change one thing each.
\<close>

definition silent_world :: world where
  "silent_world =
     \<lparr>resolve_download_url = (\<lambda>insecure cookie referer game_id file_id. Inl ''HTTP Error 403: Forbidden''),
      direct_download = (\<lambda>insecure url fallback. Inl ''HTTP Error 404: Not Found''),
      goto = (\<lambda>attempt. None),
      click_slow_first = None,
      click_manual = None,
      click_slow_second = None,
      polls = [],
      final_download_errors = []\<rparr>"

definition direct_world :: "string \<Rightarrow> world" where
  "direct_world downloaded =
     silent_world\<lparr>resolve_download_url :=
                    (\<lambda>insecure cookie referer game_id file_id. Inr ''https://cdn.example/1303/5/Mod.zip''),
                  direct_download := (\<lambda>insecure url fallback. Inr downloaded)\<rparr>"

definition ssl_world :: "string \<Rightarrow> world" where
  "ssl_world downloaded =
     silent_world\<lparr>resolve_download_url :=
                    (\<lambda>insecure cookie referer game_id file_id.
                       if insecure then Inr ''https://cdn.example/1303/5/Mod.zip''
                       else Inl ''<urlopen error [SSL: CERTIFICATE_VERIFY_FAILED] certificate verify failed (_ssl.c:1006)>''),
                  direct_download := (\<lambda>insecure url fallback. Inr downloaded)\<rparr>"

definition manual_only_world :: world where
  "manual_only_world = silent_world\<lparr>click_manual := Some ''a:has-text('Manual'):visible''\<rparr>"

definition slow_world :: world where
  "slow_world = silent_world\<lparr>click_slow_first := Some ''text=Slow download''\<rparr>"

definition detected_world :: world where
  "detected_world =
     slow_world\<lparr>polls := [\<lparr>saved_downloads = [], seen_downloads = [], download_errors = [],
                             started_visible = False,
                             completed_file = Some ''/home/u/Downloads/Mod.zip''\<rparr>]\<rparr>"

definition saved_world :: world where
  "saved_world =
     slow_world\<lparr>polls := [\<lparr>saved_downloads = [''/home/u/Downloads/Mod.zip''],
                             seen_downloads = [''Mod.zip''], download_errors = [],
                             started_visible = False, completed_file = None\<rparr>]\<rparr>"

definition mod_12_file_5 :: string where
  "mod_12_file_5 = ''https://www.nexusmods.com/skyrim/mods/12?tab=files&file_id=5''"

definition ssl_broken_world :: world where
  "ssl_broken_world =
     silent_world\<lparr>resolve_download_url :=
                    (\<lambda>insecure cookie referer game_id file_id.
                       Inl ''<urlopen error [SSL: CERTIFICATE_VERIFY_FAILED] certificate verify failed (_ssl.c:1006)>'')\<rparr>"

definition skyrim_12_5 :: mod_target where
  "skyrim_12_5 = (Some ''skyrim'', Some 12, Some 5)"

definition empty_report :: RunReport where
  "empty_report =
     \<lparr>run_id = ''20240101-120000'',
      collection_url = ''https://www.nexusmods.com/games/skyrim/collections/abc123/mods'',
      queue_count = 0, results = [], interrupted = False, fatal_error = None,
      install_ok = 0, install_fail = 0\<rparr>"


text \<open>
  Links as a collection page offers them: the same file of mod 12 in three spellings, a
  link to another site, and mod 7 twice.
\<close>

definition mod_12_file_5_bare :: string where
  "mod_12_file_5_bare = ''http://nexusmods.com/skyrim/mods/12/?file_id=5&tab=posts''"

definition mod_7 :: string where
  "mod_7 = ''https://www.nexusmods.com/skyrim/mods/7''"

definition mod_7_description :: string where
  "mod_7_description = ''https://www.nexusmods.com/skyrim/mods/7?tab=description#top''"

definition mod_3 :: string where
  "mod_3 = ''https://www.nexusmods.com/skyrim/mods/3''"

definition elsewhere :: string where
  "elsewhere = ''https://example.com/skyrim/mods/12''"

definition page_links :: "string list" where
  "page_links = [mod_12_file_5_bare, elsewhere, mod_7_description, mod_12_file_5, mod_7, mod_3]"

text \<open>Mod 12 of Skyrim without a file, in three spellings of the path.\<close>

definition mod_12 :: string where
  "mod_12 = ''https://www.nexusmods.com/skyrim/mods/12''"

definition mod_12_capital :: string where
  "mod_12_capital = ''https://www.nexusmods.com/Skyrim/mods/12''"

definition mod_12_zeros :: string where
  "mod_12_zeros = ''https://www.nexusmods.com/skyrim/mods/012''"





section \<open>Verification\<close>

subsection \<open>Shared facts about the resolver\<close>

lemma is_good_archive_name_iff: "is_good_archive_name nm = has_archive_extension nm"
  by (simp add: is_good_archive_name_def)

lemma direct_result_status:
  "status (direct_result url prefix p) = (if has_archive_extension (path_name p) then ''ok'' else ''partial'')"
  by (simp add: direct_result_def is_good_archive_name_iff)

lemma completion_loop_status:
  "status (fst (completion_loop url fe ps used)) = ''ok'' \<or> status (fst (completion_loop url fe ps used)) = ''partial''"
  by (induction url fe ps used rule: completion_loop.induct) (auto split: option.splits)

lemma completion_loop_trace:
  "set (snd (completion_loop url fe ps used)) \<subseteq> {RemoveListener, PollDownloads, Click MANUAL_LINK_SELECTORS}"
  by (induction url fe ps used rule: completion_loop.induct) (auto split: option.splits)

lemma direct_attempt_trace:
  "snd (direct_attempt w ins c fu g f fb) = [ResolveUrl ins]
   \<or> snd (direct_attempt w ins c fu g f fb) = [ResolveUrl ins, DirectDownload ins]"
  by (simp add: direct_attempt_def split: sum.splits)

lemma direct_attempt_downloaded:
  "fst (direct_attempt w ins c fu g f fb) = Inr p \<Longrightarrow>
   snd (direct_attempt w ins c fu g f fb) = [ResolveUrl ins, DirectDownload ins]"
  by (simp add: direct_attempt_def split: sum.splits)

lemma navigate_trace: "set (snd (navigate w fu)) = {Goto fu}"
  by (simp add: navigate_def split: option.splits)

lemma manual_link_not_manual: "MANUAL_LINK_SELECTORS \<noteq> MANUAL_SELECTORS"
  by (simp add: MANUAL_LINK_SELECTORS_def MANUAL_SELECTORS_def)

lemma click_sequence_trace:
  "set (snd (click_sequence w url v)) \<subseteq>
     {AddListener, RemoveListener, PollDownloads, Click SLOW_SELECTORS, Click MANUAL_SELECTORS,
      Click MANUAL_LINK_SELECTORS}"
  using completion_loop_trace [of url "final_download_errors w" "polls w" False]
  by (auto simp: click_sequence_def)

lemma click_fallback_trace:
  "set (snd (click_fallback w url fu dry v)) \<subseteq>
     {Goto fu, Baseline, Click COOKIE_SELECTORS, AddListener, RemoveListener, PollDownloads,
      Click SLOW_SELECTORS, Click MANUAL_SELECTORS, Click MANUAL_LINK_SELECTORS}"
  using click_sequence_trace [of w url v] navigate_trace [of w fu]
  by (cases "navigate w fu") (auto simp: click_fallback_def split: option.splits)

lemma click_fallback_no_resolve: "count_list (snd (click_fallback w url fu dry v)) (ResolveUrl b) = 0"
  using click_fallback_trace [of w url fu dry v] by (auto simp: count_list_0_iff)

lemma click_sequence_status:
  "status (fst (click_sequence w url v)) \<in> {''ok'', ''partial'', ''fallback_needed''}"
  using completion_loop_status [of url "final_download_errors w" "polls w" False]
  by (auto simp: click_sequence_def)

lemma click_fallback_dry_run:
  assumes "status (fst (click_fallback w url fu dry v)) = ''dry_run''"
  shows "dry \<and> reason (fst (click_fallback w url fu dry v)) = ''navigation_only''
         \<and> Goto fu \<in> set (snd (click_fallback w url fu dry v))"
proof (cases "navigate w fu")
  case (Pair r tr)
  have g: "Goto fu \<in> set tr"
    using navigate_trace [of w fu] Pair by auto
  show ?thesis
  proof (cases r)
    case (Some e)
    with Pair assms show ?thesis
      by (simp add: click_fallback_def)
  next
    case None
    show ?thesis
    proof (cases dry)
      case True
      with None Pair g show ?thesis
        by (simp add: click_fallback_def)
    next
      case False
      with None Pair assms click_sequence_status [of w url v] show ?thesis
        by (auto simp: click_fallback_def)
    qed
  qed
qed

lemma direct_path_status:
  "fst (direct_path w url c fu g f fb) = Some item \<Longrightarrow> status item = ''ok'' \<or> status item = ''partial''"
  by (auto simp: direct_path_def direct_result_status split: prod.splits sum.splits if_splits)

subsection \<open>Decimal numbers\<close>

lemma below_ten: "(k::nat) < 10 \<Longrightarrow> k \<in> set [0, 1, 2, 3, 4, 5, 6, 7, 8, 9]"
  by (simp add: numeral_eq_Suc less_Suc_eq) 

lemma digit_table: "k < 10 \<Longrightarrow> is_digit (''0123456789'' ! k) \<and> digit_val (''0123456789'' ! k) = k"
proof -
  assume "k < 10"
  then have "k \<in> set [0, 1, 2, 3, 4, 5, 6, 7, 8, 9]"
    by (rule below_ten)
  moreover have "\<forall>j \<in> set [0, 1, 2, 3, 4, 5, 6, 7, 8, 9 :: nat].
                   is_digit (''0123456789'' ! j) \<and> digit_val (''0123456789'' ! j) = j"
    by (simp add: is_digit_def digit_val_def)
  ultimately show ?thesis
    by blast
qed

lemma digit_char_is_digit: "is_digit (digit_char d)"
  using digit_table [of "d mod 10"] by (simp add: digit_char_def)

lemma digit_val_digit_char: "digit_val (digit_char d) = d mod 10"
  using digit_table [of "d mod 10"] by (simp add: digit_char_def)

lemma str_nat_digits: "list_all is_digit (str_nat n)"
proof (induction n rule: str_nat.induct)
  case (1 n)
  show ?case
  proof (cases "n < 10")
    case True
    then show ?thesis by (subst str_nat.simps) (simp add: digit_char_is_digit)
  next
    case False
    with 1 show ?thesis by (subst str_nat.simps) (simp add: digit_char_is_digit)
  qed
qed

lemma str_nat_nonempty: "str_nat n \<noteq> []"
  by (subst str_nat.simps) simp

lemma digits_value_snoc: "digits_value (s @ [c]) = 10 * digits_value s + digit_val c"
  by (simp add: digits_value_def)

lemma digits_value_str_nat: "digits_value (str_nat n) = n"
proof (induction n rule: str_nat.induct)
  case (1 n)
  show ?case
  proof (cases "n < 10")
    case True
    then show ?thesis
      by (subst str_nat.simps) (simp add: digits_value_def digit_val_digit_char)
  next
    case False
    with 1 have "digits_value (str_nat (n div 10)) = n div 10" by simp
    with False show ?thesis
      by (subst str_nat.simps) (simp add: digits_value_snoc digit_val_digit_char)
  qed
qed

lemma is_digit_chars:
  "is_digit c \<Longrightarrow> \<not> c_isspace c \<and> c \<noteq> CHR ''_'' \<and> c \<noteq> CHR ''-'' \<and> c \<noteq> CHR ''+''
     \<and> c \<noteq> CHR ''%'' \<and> c \<noteq> CHR ''&'' \<and> c \<noteq> CHR ''='' \<and> c \<noteq> CHR ''#'' \<and> c \<noteq> CHR ''?''
     \<and> c \<noteq> CHR ''/'' \<and> c \<noteq> CHR '';'' \<and> \<not> unsafe_url_byte c \<and> lower_char c = c"
  unfolding is_digit_def c_isspace_def unsafe_url_byte_def lower_char_def
  by (elim disjE | simp)+

lemma is_digit_not_space: "is_digit c \<Longrightarrow> \<not> c_isspace c"
  by (drule is_digit_chars) simp

lemma is_digit_not_sign:
  "is_digit c \<Longrightarrow> c \<noteq> CHR ''_'' \<and> c \<noteq> CHR ''-'' \<and> c \<noteq> CHR ''+''"
  by (drule is_digit_chars) simp

lemma literal_ok_digits: "s \<noteq> [] \<Longrightarrow> list_all is_digit s \<Longrightarrow> literal_ok s"
proof (induction s rule: literal_ok.induct)
  case 1
  then show ?case by simp
next
  case (2 c)
  then show ?case by simp
next
  case (3 c d s)
  have "is_digit d"
    using "3.prems" by simp
  then have "d \<noteq> CHR ''_''"
    by (simp add: is_digit_not_sign)
  with 3 show ?case by simp
qed

lemma strip_where_id:
  assumes "s \<noteq> []" "\<not> P (hd s)" "\<not> P (last s)"
  shows "strip_where P s = s"
proof -
  have a: "dropWhile P s = s"
    using assms(1,2) by (cases s) simp_all
  have "rev s \<noteq> []" "\<not> P (hd (rev s))"
    using assms(1,3) by (simp_all add: hd_rev)
  then have "dropWhile P (rev s) = rev s"
    by (cases "rev s") simp_all
  with a show ?thesis by (simp add: strip_where_def)
qed

lemma py_int_digits:
  assumes ne: "s \<noteq> []" and ds: "list_all is_digit s"
  shows "py_int s = Some (int (digits_value s))"
proof -
  have h: "is_digit (hd s)" and l: "is_digit (last s)"
    using ne ds by (simp_all add: list_all_iff)
  have st: "strip_where c_isspace s = s"
    using ne is_digit_not_space [OF h] is_digit_not_space [OF l] by (rule strip_where_id)
  obtain c r where s: "s = c # r"
    using ne by (cases s) auto
  have "is_digit c"
    using h s by simp
  then have c: "c \<noteq> CHR ''-''" "c \<noteq> CHR ''+''"
    using is_digit_not_sign [of c] by blast+
  have t1: "take 1 s \<noteq> ''-''" "take 1 s \<noteq> ''+''"
    unfolding s using c by simp_all
  have us: "\<forall>x \<in> set s. x \<noteq> CHR ''_''"
  proof
    fix x assume "x \<in> set s"
    then have "is_digit x"
      using ds by (simp add: list_all_iff)
    then show "x \<noteq> CHR ''_''"
      using is_digit_not_sign [of x] by blast
  qed
  then have f: "filter (\<lambda>c. c \<noteq> CHR ''_'') s = s"
    by (simp add: filter_id_conv)
  have lit: "literal_ok s"
    using ne ds by (rule literal_ok_digits)
  have body: "(if take 1 s = ''-'' \<or> take 1 s = ''+'' then drop 1 s else s) = s"
    using t1 by (simp only: if_False simp_thms)
  show ?thesis
    unfolding py_int_def Let_def st body
    using t1 lit by (simp only: f if_True if_False mult_1)
qed

lemma py_int_str_nat: "py_int (str_nat n) = Some (int n)"
  by (simp only: py_int_digits [OF str_nat_nonempty str_nat_digits] digits_value_str_nat)

subsection \<open>Parsing a canonical URL\<close>

lemma takeWhile_neq: "c \<notin> set xs \<Longrightarrow> takeWhile (\<lambda>x. x \<noteq> c) xs = xs"
  by (induction xs) auto

lemma dropWhile_neq: "c \<notin> set xs \<Longrightarrow> dropWhile (\<lambda>x. x \<noteq> c) xs = []"
  by (induction xs) auto

lemma takeWhile_neq_append: "c \<notin> set a \<Longrightarrow> takeWhile (\<lambda>x. x \<noteq> c) (a @ c # b) = a"
  by (induction a) auto

lemma dropWhile_neq_append: "c \<notin> set a \<Longrightarrow> dropWhile (\<lambda>x. x \<noteq> c) (a @ c # b) = c # b"
  by (induction a) auto

lemma split_once_absent: "c \<notin> set s \<Longrightarrow> split_once c s = (s, [])"
  by (simp add: split_once_def takeWhile_neq dropWhile_neq)

lemma split_once_at: "c \<notin> set a \<Longrightarrow> split_once c (a @ c # b) = (a, b)"
  by (simp add: split_once_def takeWhile_neq_append dropWhile_neq_append)

lemma last_segment_append:
  "CHR ''/'' \<notin> set ds \<Longrightarrow> last_segment (xs @ CHR ''/'' # ds) = ds"
proof -
  assume a: "CHR ''/'' \<notin> set ds"
  then have "CHR ''/'' \<notin> set (rev ds)" by simp
  then have "takeWhile (\<lambda>c. c \<noteq> CHR ''/'') (rev ds @ CHR ''/'' # rev xs) = rev ds"
    by (rule takeWhile_neq_append)
  then show ?thesis
    by (simp add: last_segment_def)
qed

lemma last_segment_split:
  "take (length p - length (last_segment p)) p @ last_segment p = p"
proof -
  let ?t = "takeWhile (\<lambda>c. c \<noteq> CHR ''/'') (rev p)"
  let ?d = "dropWhile (\<lambda>c. c \<noteq> CHR ''/'') (rev p)"
  have "rev p = ?t @ ?d" by simp
  then have "p = rev ?d @ rev ?t"
    by (metis rev_append rev_rev_ident)
  then have p: "p = rev ?d @ last_segment p"
    by (simp add: last_segment_def)
  have "length (rev ?d) = length p - length (last_segment p)"
    using arg_cong [OF p, of length] by simp
  then have "take (length p - length (last_segment p)) p = rev ?d"
    using p by (metis append_eq_conv_conj)
  with p show ?thesis by simp
qed

lemma splitparams_none:
  "CHR '';'' \<notin> set (last_segment p) \<Longrightarrow> splitparams p = (p, [])"
  by (simp add: splitparams_def takeWhile_neq dropWhile_neq last_segment_split)

lemma clean_url_canonical:
  assumes "\<forall>c \<in> set X. \<not> unsafe_url_byte c"
  shows "clean_url (''https://www.nexusmods.com'' @ X) = ''https://www.nexusmods.com'' @ X"
proof -
  have a: "filter (\<lambda>c. \<not> unsafe_url_byte c) X = X"
    using assms by (simp add: filter_id_conv)
  have b: "filter (\<lambda>c. \<not> unsafe_url_byte c) ''https://www.nexusmods.com'' = ''https://www.nexusmods.com''"
    by (simp add: unsafe_url_byte_def)
  have c: "dropWhile c0_control_or_space (''https://www.nexusmods.com'' @ X) = ''https://www.nexusmods.com'' @ X"
    by (simp add: c0_control_or_space_def)
  show ?thesis
    unfolding clean_url_def c filter_append a b ..
qed

lemma split_scheme_canonical:
  "split_scheme (''https://www.nexusmods.com'' @ X) = (''https'', ''//www.nexusmods.com'' @ X)"
  by (simp add: split_scheme_def Let_def ascii_letters_def scheme_chars_def lower_def lower_char_def)

lemma split_netloc_canonical:
  "split_netloc (''//www.nexusmods.com'' @ CHR ''/'' # X) = (''www.nexusmods.com'', CHR ''/'' # X)"
  by (simp add: split_netloc_def netloc_end_def)

lemma urlsplit_canonical:
  assumes ph: "CHR ''#'' \<notin> set P" and pq: "CHR ''?'' \<notin> set P"
      and pu: "\<forall>c \<in> set (CHR ''/'' # P). \<not> unsafe_url_byte c"
      and qh: "CHR ''#'' \<notin> set Q" and qu: "\<forall>c \<in> set Q. \<not> unsafe_url_byte c"
  shows "urlsplit (''https://www.nexusmods.com'' @ CHR ''/'' # P)
           = Some \<lparr>scheme = ''https'', netloc = ''www.nexusmods.com'', upath = CHR ''/'' # P,
                    params = [], query = [], fragment = []\<rparr>"
    and "urlsplit (''https://www.nexusmods.com'' @ (CHR ''/'' # P) @ CHR ''?'' # Q)
           = Some \<lparr>scheme = ''https'', netloc = ''www.nexusmods.com'', upath = CHR ''/'' # P,
                    params = [], query = Q, fragment = []\<rparr>"
proof -
  have c1: "clean_url (''https://www.nexusmods.com'' @ CHR ''/'' # P)
              = ''https://www.nexusmods.com'' @ CHR ''/'' # P"
    using pu by (rule clean_url_canonical)
  have h1: "CHR ''#'' \<notin> set (CHR ''/'' # P)" and q1: "CHR ''?'' \<notin> set (CHR ''/'' # P)"
    using ph pq by simp_all
  show "urlsplit (''https://www.nexusmods.com'' @ CHR ''/'' # P)
           = Some \<lparr>scheme = ''https'', netloc = ''www.nexusmods.com'', upath = CHR ''/'' # P,
                    params = [], query = [], fragment = []\<rparr>"
    unfolding urlsplit_def Let_def c1 split_scheme_canonical snd_conv fst_conv
      split_netloc_canonical split_once_absent [OF h1] split_once_absent [OF q1]
    by simp
  have u2: "\<forall>c \<in> set ((CHR ''/'' # P) @ CHR ''?'' # Q). \<not> unsafe_url_byte c"
    using pu qu by (auto simp: unsafe_url_byte_def)
  have c2: "clean_url (''https://www.nexusmods.com'' @ (CHR ''/'' # P) @ CHR ''?'' # Q)
              = ''https://www.nexusmods.com'' @ (CHR ''/'' # P) @ CHR ''?'' # Q"
    using u2 by (rule clean_url_canonical)
  have h2: "CHR ''#'' \<notin> set ((CHR ''/'' # P) @ CHR ''?'' # Q)"
    using ph qh by simp
  have n2: "split_netloc (''//www.nexusmods.com'' @ (CHR ''/'' # P) @ CHR ''?'' # Q)
              = (''www.nexusmods.com'', (CHR ''/'' # P) @ CHR ''?'' # Q)"
    using split_netloc_canonical [of "P @ CHR ''?'' # Q"] by simp
  show "urlsplit (''https://www.nexusmods.com'' @ (CHR ''/'' # P) @ CHR ''?'' # Q)
           = Some \<lparr>scheme = ''https'', netloc = ''www.nexusmods.com'', upath = CHR ''/'' # P,
                    params = [], query = Q, fragment = []\<rparr>"
    unfolding urlsplit_def Let_def c2 split_scheme_canonical snd_conv fst_conv
      n2 split_once_absent [OF h2] split_once_at [OF q1]
    by simp
qed

lemma urlparse_canonical:
  assumes ph: "CHR ''#'' \<notin> set P" and pq: "CHR ''?'' \<notin> set P"
      and pu: "\<forall>c \<in> set (CHR ''/'' # P). \<not> unsafe_url_byte c"
      and ps: "CHR '';'' \<notin> set (last_segment (CHR ''/'' # P))"
      and qh: "CHR ''#'' \<notin> set Q" and qu: "\<forall>c \<in> set Q. \<not> unsafe_url_byte c"
  shows "urlparse (''https://www.nexusmods.com'' @ CHR ''/'' # P)
           = Some \<lparr>scheme = ''https'', netloc = ''www.nexusmods.com'', upath = CHR ''/'' # P,
                    params = [], query = [], fragment = []\<rparr>"
    and "urlparse (''https://www.nexusmods.com'' @ (CHR ''/'' # P) @ CHR ''?'' # Q)
           = Some \<lparr>scheme = ''https'', netloc = ''www.nexusmods.com'', upath = CHR ''/'' # P,
                    params = [], query = Q, fragment = []\<rparr>"
  unfolding urlparse_def urlsplit_canonical [OF ph pq pu qh qu]
  by (simp_all add: splitparams_none [OF ps])

lemma unquote_id: "CHR ''%'' \<notin> set s \<Longrightarrow> unquote s = s"
  by (induction s rule: unquote.induct) auto

lemma unquote_plus_id: "CHR ''%'' \<notin> set s \<Longrightarrow> CHR ''+'' \<notin> set s \<Longrightarrow> unquote_plus s = s"
proof -
  assume a: "CHR ''%'' \<notin> set s" and b: "CHR ''+'' \<notin> set s"
  have "map (\<lambda>c. if c = CHR ''+'' then CHR '' '' else c) s = s"
    using b by (induction s) auto
  then show ?thesis
    using a by (simp add: unquote_plus_def unquote_id)
qed

lemma split_on_absent: "sep \<notin> set s \<Longrightarrow> split_on sep s = [s]"
  by (induction s) auto

lemma split_on_at: "sep \<notin> set a \<Longrightarrow> split_on sep (a @ sep # b) = a # split_on sep b"
  by (induction a) auto

lemma digits_plain:
  assumes "list_all is_digit ds"
  shows "CHR ''%'' \<notin> set ds" "CHR ''+'' \<notin> set ds" "CHR ''&'' \<notin> set ds" "CHR ''='' \<notin> set ds"
    "CHR ''#'' \<notin> set ds" "CHR ''?'' \<notin> set ds" "CHR ''/'' \<notin> set ds" "CHR '';'' \<notin> set ds"
    "\<forall>c \<in> set ds. \<not> unsafe_url_byte c"
  using assms is_digit_chars by (auto simp: list_all_iff)

lemma parse_field_tab: "parse_field ''tab=files'' = [(''tab'', ''files'')]"
  by (simp add: parse_field_def split_once_def unquote_plus_def)

lemma parse_field_file_id:
  assumes ne: "ds \<noteq> []" and dg: "list_all is_digit ds"
  shows "parse_field (''file_id='' @ ds) = [(''file_id'', ds)]"
proof -
  have e: "''file_id='' @ ds = ''file_id'' @ CHR ''='' # ds"
    by simp
  have sp: "split_once CHR ''='' (''file_id='' @ ds) = (''file_id'', ds)"
    unfolding e by (rule split_once_at) simp
  have m: "CHR ''='' \<in> set (''file_id='' @ ds)"
    by simp
  have u1: "unquote_plus ''file_id'' = ''file_id''"
    by (simp add: unquote_plus_def)
  have u2: "unquote_plus ds = ds"
    using digits_plain(1,2) [OF dg] by (rule unquote_plus_id)
  show ?thesis
    unfolding parse_field_def sp fst_conv snd_conv u1 u2
    using ne m by (simp only: simp_thms if_True)
qed

lemma parse_qsl_canonical:
  assumes ne: "ds \<noteq> []" and dg: "list_all is_digit ds"
  shows "parse_qsl (''tab=files&file_id='' @ ds) = [(''tab'', ''files''), (''file_id'', ds)]"
proof -
  have e: "''tab=files&file_id='' @ ds = ''tab=files'' @ CHR ''&'' # (''file_id='' @ ds)"
    by simp
  have "CHR ''&'' \<notin> set (''file_id='' @ ds)"
    using digits_plain(3) [OF dg] by simp
  then have t: "split_on CHR ''&'' (''file_id='' @ ds) = [''file_id='' @ ds]"
    by (rule split_on_absent)
  have "split_on CHR ''&'' (''tab=files'' @ CHR ''&'' # (''file_id='' @ ds))
          = ''tab=files'' # split_on CHR ''&'' (''file_id='' @ ds)"
    by (rule split_on_at) simp
  then have sp: "split_on CHR ''&'' (''tab=files&file_id='' @ ds) = [''tab=files'', ''file_id='' @ ds]"
    unfolding e t .
  have c: "concat (map parse_field [a, b]) = parse_field a @ parse_field b" for a b
    by simp
  show ?thesis
    unfolding parse_qsl_def sp c parse_field_tab parse_field_file_id [OF ne dg]
    by simp
qed

lemma query_file_id_digits:
  assumes ne: "ds \<noteq> []" and dg: "list_all is_digit ds"
  shows "query_file_id (''tab=files&file_id='' @ ds) = py_int ds"
  unfolding query_file_id_def qs_get_def parse_qsl_canonical [OF ne dg]
  by simp

lemma query_file_id_canonical: "query_file_id (urlencode_tab_files (int n)) = Some (int n)"
proof -
  have "str_int (int n) = str_nat n"
    by (simp only: str_int_def) simp
  then show ?thesis
    unfolding urlencode_tab_files_def
    by (simp only: query_file_id_digits [OF str_nat_nonempty str_nat_digits] py_int_str_nat)
qed

lemma query_file_id_empty: "query_file_id [] = None"
  by (simp add: query_file_id_def qs_get_def parse_qsl_def parse_field_def)

lemma lower_char_slash: "lower_char c = CHR ''/'' \<Longrightarrow> c = CHR ''/''"
  by (simp add: lower_char_def split: if_splits)

lemma length_lower: "length (lower s) = length s"
  by (simp add: lower_def)

lemma mods_segment_ends_with_slash:
  assumes "lower ms = ''/mods/''"
  shows "\<exists>m5. ms = m5 @ ''/''"
proof -
  have "length ms = 6"
    using assms length_lower [of ms] by simp
  then obtain a b c d e f where ms: "ms = [a, b, c, d, e, f]"
    by (auto simp: length_Suc_conv numeral_eq_Suc)
  then have "lower_char f = CHR ''/''"
    using assms by (simp add: lower_def)
  then have "f = CHR ''/''"
    by (rule lower_char_slash)
  with ms have "ms = [a, b, c, d, e] @ ''/''"
    by simp
  then show ?thesis ..
qed

lemma mod_path_last_segment:
  assumes m: "MOD_PATH_RE_match P"
      and nl: "CHR 0x0A \<notin> set P"
      and ns: "P = [] \<or> last P \<noteq> CHR ''/''"
  shows "list_all is_digit (last_segment P) \<and> last_segment P \<noteq> []"
proof -
  define R where "R = drop 1 P"
  define seg where "seg = takeWhile (\<lambda>c. c \<noteq> CHR ''/'') R"
  define r1 where "r1 = dropWhile (\<lambda>c. c \<noteq> CHR ''/'') R"
  define ms where "ms = take 6 r1"
  define ds where "ds = takeWhile is_digit (drop 6 r1)"
  define r2 where "r2 = dropWhile is_digit (drop 6 r1)"
  from m have t1: "take 1 P = ''/''" and lm: "lower ms = ''/mods/''" and dne: "ds \<noteq> []"
    and r2: "r2 \<in> set [[], ''/'', [CHR 0x0A], [CHR ''/'', CHR 0x0A]]"
    unfolding MOD_PATH_RE_match_def Let_def R_def seg_def r1_def ms_def ds_def r2_def
    by blast+
  have e1: "take 1 P @ R = P"
    unfolding R_def by (rule append_take_drop_id)
  have e2: "seg @ r1 = R"
    unfolding seg_def r1_def by (rule takeWhile_dropWhile_id)
  have e3: "ms @ drop 6 r1 = r1"
    unfolding ms_def by (rule append_take_drop_id)
  have e4: "ds @ r2 = drop 6 r1"
    unfolding ds_def r2_def by (rule takeWhile_dropWhile_id)
  have P: "''/'' @ seg @ ms @ ds @ r2 = P"
    unfolding e4 e3 e2 t1 [symmetric] by (rule e1)
  have r2e: "r2 = []"
  proof (rule ccontr)
    assume ne: "r2 \<noteq> []"
    have sub: "set r2 \<subseteq> set P"
      unfolding P [symmetric] by auto
    have lastP: "last P = last r2"
      unfolding P [symmetric] using ne by simp
    have Pne: "P \<noteq> []"
      unfolding P [symmetric] by simp
    consider "r2 = ''/''" | "CHR 0x0A \<in> set r2"
      using r2 ne by auto
    then show False
    proof cases
      case 1
      then have "last P = CHR ''/''"
        using lastP by simp
      with ns Pne show False by simp
    next
      case 2
      with sub nl show False by blast
    qed
  qed
  obtain m5 where m5: "ms = m5 @ ''/''"
    using mods_segment_ends_with_slash [OF lm] by blast
  have dd: "list_all is_digit ds"
    unfolding ds_def list_all_iff by (meson set_takeWhileD)
  have "(''/'' @ seg @ m5) @ CHR ''/'' # ds = P"
    unfolding P [symmetric] r2e m5 by simp
  then have "last_segment P = last_segment ((''/'' @ seg @ m5) @ CHR ''/'' # ds)"
    by (rule arg_cong [OF sym])
  also have "\<dots> = ds"
    using digits_plain(7) [OF dd] by (rule last_segment_append)
  finally show ?thesis
    using dd dne by simp
qed

lemma set_split_scheme: "set (snd (split_scheme u)) \<subseteq> set u"
  by (auto simp: split_scheme_def Let_def dest: in_set_dropD)

lemma set_split_netloc: "set (snd (split_netloc u)) \<subseteq> set u"
  by (auto simp: split_netloc_def dest: set_dropWhileD in_set_dropD)

lemma set_clean_url: "c \<in> set (clean_url u) \<Longrightarrow> \<not> unsafe_url_byte c"
  by (simp add: clean_url_def)

lemma set_last_segment: "set (last_segment p) \<subseteq> set p"
  by (auto simp: last_segment_def dest: set_takeWhileD)

lemma set_splitparams: "set (fst (splitparams p)) \<subseteq> set p"
  using set_last_segment [of p]
  by (auto simp: splitparams_def dest: in_set_takeD set_takeWhileD)

lemma set_rstrip_char: "set (rstrip_char c s) \<subseteq> set s"
  by (auto simp: rstrip_char_def dest: set_dropWhileD)

lemma rstrip_char_last: "rstrip_char c s = [] \<or> last (rstrip_char c s) \<noteq> c"
proof (cases "dropWhile (\<lambda>x. x = c) (rev s)")
  case Nil
  then show ?thesis by (simp add: rstrip_char_def)
next
  case (Cons y ys)
  then have "y \<noteq> c"
    using hd_dropWhile [of "\<lambda>x. x = c" "rev s"] by simp
  with Cons show ?thesis by (simp add: rstrip_char_def)
qed

lemma rstrip_char_id: "s = [] \<or> last s \<noteq> c \<Longrightarrow> rstrip_char c s = s"
proof (cases "rev s")
  case Nil
  then show ?thesis by (simp add: rstrip_char_def)
next
  case (Cons y ys)
  assume "s = [] \<or> last s \<noteq> c"
  with Cons have "y \<noteq> c"
    by (metis last_rev list.sel(1) rev_is_Nil_conv rev_rev_ident list.distinct(1))
  with Cons have "dropWhile (\<lambda>x. x = c) (rev s) = rev s"
    by simp
  then show ?thesis by (simp add: rstrip_char_def)
qed

lemma not_in_takeWhile_neq: "c \<notin> set (takeWhile (\<lambda>x. x \<noteq> c) xs)"
  by (induction xs) auto

lemma set_takeWhile_subset: "set (takeWhile P xs) \<subseteq> set xs"
  by (auto dest: set_takeWhileD)

lemma urlsplit_path_chars:
  assumes "urlsplit url = Some r"
  shows "CHR ''#'' \<notin> set (upath r) \<and> CHR ''?'' \<notin> set (upath r)
         \<and> (\<forall>c \<in> set (upath r). \<not> unsafe_url_byte c)"
proof -
  let ?r2 = "snd (split_netloc (snd (split_scheme (clean_url url))))"
  have up: "upath r = takeWhile (\<lambda>x. x \<noteq> CHR ''?'') (takeWhile (\<lambda>x. x \<noteq> CHR ''#'') ?r2)"
    using assms by (auto simp: urlsplit_def Let_def split_once_def split: if_splits)
  have sub: "set ?r2 \<subseteq> set (clean_url url)"
    using set_split_netloc set_split_scheme by (meson order_trans)
  have a: "CHR ''?'' \<notin> set (upath r)"
    unfolding up by (rule not_in_takeWhile_neq)
  have b: "CHR ''#'' \<notin> set (upath r)"
    unfolding up
    using not_in_takeWhile_neq [of "CHR ''#''" ?r2]
      set_takeWhile_subset [of "\<lambda>x. x \<noteq> CHR ''?''" "takeWhile (\<lambda>x. x \<noteq> CHR ''#'') ?r2"]
    by blast
  have c: "\<forall>c \<in> set (upath r). \<not> unsafe_url_byte c"
  proof
    fix c assume "c \<in> set (upath r)"
    then have "c \<in> set ?r2"
      unfolding up
      using set_takeWhile_subset [of "\<lambda>x. x \<noteq> CHR ''?''" "takeWhile (\<lambda>x. x \<noteq> CHR ''#'') ?r2"]
        set_takeWhile_subset [of "\<lambda>x. x \<noteq> CHR ''#''" ?r2]
      by blast
    with sub have "c \<in> set (clean_url url)" by blast
    then show "\<not> unsafe_url_byte c" by (rule set_clean_url)
  qed
  from a b c show ?thesis by blast
qed

lemma urlparse_path_chars:
  assumes "urlparse url = Some r"
  shows "CHR ''#'' \<notin> set (upath r) \<and> CHR ''?'' \<notin> set (upath r)
         \<and> (\<forall>c \<in> set (upath r). \<not> unsafe_url_byte c)"
proof -
  obtain r0 where r0: "urlsplit url = Some r0"
    using assms by (auto simp: urlparse_def split: option.splits)
  have "upath r = upath r0 \<or> upath r = fst (splitparams (upath r0))"
    using assms r0 by (auto simp: urlparse_def split: if_splits)
  then have "set (upath r) \<subseteq> set (upath r0)"
    using set_splitparams [of "upath r0"] by auto
  with urlsplit_path_chars [OF r0] show ?thesis
    by blast
qed

lemma mod_path_starts_with_slash: "MOD_PATH_RE_match P \<Longrightarrow> \<exists>P'. P = CHR ''/'' # P'"
proof -
  assume "MOD_PATH_RE_match P"
  then have "take 1 P = ''/''"
    unfolding MOD_PATH_RE_match_def Let_def by blast
  then show ?thesis
    by (cases P) simp_all
qed

text \<open>What an accepted URL's canonical string looks like, and how it parses.\<close>

lemma normalize_shape:
  assumes acc: "normalize_mod_target_url url = Some c"
  shows "\<exists>P Q. c = ''https://www.nexusmods.com'' @ P @ (if Q = [] then [] else CHR ''?'' # Q)
               \<and> MOD_PATH_RE_match P
               \<and> rstrip_char CHR ''/'' P = P
               \<and> (Q = [] \<or> (\<exists>n. 0 < n \<and> Q = urlencode_tab_files (int n)))
               \<and> urlparse c = Some \<lparr>scheme = ''https'', netloc = ''www.nexusmods.com'', upath = P,
                                       params = [], query = Q, fragment = []\<rparr>"
proof -
  obtain r where r: "urlparse url = Some r"
    using acc by (auto simp: normalize_mod_target_url_def split: option.splits)
  define P where "P = rstrip_char CHR ''/'' (upath r)"
  have m: "MOD_PATH_RE_match P"
    using acc r unfolding P_def
    by (auto simp: normalize_mod_target_url_def split: if_splits)
  obtain P' where P': "P = CHR ''/'' # P'"
    using mod_path_starts_with_slash [OF m] by blast
  have sub: "set P \<subseteq> set (upath r)"
    unfolding P_def by (rule set_rstrip_char)
  note ch = urlparse_path_chars [OF r]
  have ph: "CHR ''#'' \<notin> set P'" and pq: "CHR ''?'' \<notin> set P'"
    using ch sub P' by auto
  have pu: "\<forall>c \<in> set (CHR ''/'' # P'). \<not> unsafe_url_byte c"
    using ch sub P' by auto
  have nl: "CHR 0x0A \<notin> set P"
    using pu P' by (auto simp: unsafe_url_byte_def)
  have ns: "P = [] \<or> last P \<noteq> CHR ''/''"
    unfolding P_def by (rule rstrip_char_last)
  have rs: "rstrip_char CHR ''/'' P = P"
    using ns by (rule rstrip_char_id)
  have "list_all is_digit (last_segment P)"
    using mod_path_last_segment [OF m nl ns] by blast
  then have ps: "CHR '';'' \<notin> set (last_segment (CHR ''/'' # P'))"
    unfolding P' [symmetric] by (rule digits_plain(8))
  show ?thesis
  proof (cases "query_file_id (query r)")
    case None
    then have c: "c = ''https://www.nexusmods.com'' @ P"
      using acc r unfolding P_def
      by (auto simp: normalize_mod_target_url_def split: if_splits)
    have "urlparse c = Some \<lparr>scheme = ''https'', netloc = ''www.nexusmods.com'', upath = P,
                              params = [], query = [], fragment = []\<rparr>"
      unfolding c P' by (rule urlparse_canonical(1) [OF ph pq pu ps, of "[]"]) simp_all
    moreover have "c = ''https://www.nexusmods.com'' @ P @ (if ([]::string) = [] then [] else CHR ''?'' # [])"
      using c by simp
    ultimately show ?thesis
      using m rs by blast
  next
    case (Some fid)
    show ?thesis
    proof (cases "0 < fid")
      case False
      with Some have c: "c = ''https://www.nexusmods.com'' @ P"
        using acc r unfolding P_def
        by (auto simp: normalize_mod_target_url_def split: if_splits)
      have "urlparse c = Some \<lparr>scheme = ''https'', netloc = ''www.nexusmods.com'', upath = P,
                                params = [], query = [], fragment = []\<rparr>"
        unfolding c P' by (rule urlparse_canonical(1) [OF ph pq pu ps, of "[]"]) simp_all
      moreover have "c = ''https://www.nexusmods.com'' @ P @ (if ([]::string) = [] then [] else CHR ''?'' # [])"
        using c by simp
      ultimately show ?thesis
        using m rs by blast
    next
      case True
      define Q where "Q = urlencode_tab_files fid"
      have c: "c = ''https://www.nexusmods.com'' @ P @ CHR ''?'' # Q"
        using acc r Some True unfolding P_def Q_def
        by (auto simp: normalize_mod_target_url_def split: if_splits)
      have fid: "fid = int (nat fid)"
        using True by simp
      have Qd: "Q = ''tab=files&file_id='' @ str_nat (nat fid)"
        unfolding Q_def urlencode_tab_files_def str_int_def using True by simp
      have Qne: "Q \<noteq> []"
        unfolding Qd by simp
      have qh: "CHR ''#'' \<notin> set Q"
        unfolding Qd using digits_plain(5) [OF str_nat_digits] by simp
      have qu: "\<forall>c \<in> set Q. \<not> unsafe_url_byte c"
        unfolding Qd using digits_plain(9) [OF str_nat_digits]
        by (auto simp: unsafe_url_byte_def)
      have up: "urlparse c = Some \<lparr>scheme = ''https'', netloc = ''www.nexusmods.com'', upath = P,
                                    params = [], query = Q, fragment = []\<rparr>"
        unfolding c P' by (rule urlparse_canonical(2) [OF ph pq pu ps qh qu])
      have ex: "\<exists>n. 0 < n \<and> Q = urlencode_tab_files (int n)"
        using True fid unfolding Q_def by (intro exI [of _ "nat fid"]) simp
      have c': "c = ''https://www.nexusmods.com'' @ P @ (if Q = [] then [] else CHR ''?'' # Q)"
        using c Qne by simp
      from c' m rs ex up show ?thesis
        by blast
    qed
  qed
qed

lemma normalize_idempotent:
  assumes acc: "normalize_mod_target_url url = Some c"
  shows "normalize_mod_target_url c = Some c"
proof -
  obtain P Q where c: "c = ''https://www.nexusmods.com'' @ P @ (if Q = [] then [] else CHR ''?'' # Q)"
    and m: "MOD_PATH_RE_match P" and rs: "rstrip_char CHR ''/'' P = P"
    and q: "Q = [] \<or> (\<exists>n. 0 < n \<and> Q = urlencode_tab_files (int n))"
    and up: "urlparse c = Some \<lparr>scheme = ''https'', netloc = ''www.nexusmods.com'', upath = P,
                                  params = [], query = Q, fragment = []\<rparr>"
    using normalize_shape [OF acc] by blast
  have low: "lower ''www.nexusmods.com'' = ''www.nexusmods.com''"
    by (simp add: lower_def lower_char_def)
  from q show ?thesis
  proof
    assume e: "Q = []"
    have "normalize_mod_target_url c = Some (''https://www.nexusmods.com'' @ P)"
      unfolding normalize_mod_target_url_def up
      using m by (simp add: low rs e query_file_id_empty)
    also have "''https://www.nexusmods.com'' @ P = c"
      using c e by simp
    finally show ?thesis .
  next
    assume "\<exists>n. 0 < n \<and> Q = urlencode_tab_files (int n)"
    then obtain n where n: "0 < n" and Qn: "Q = urlencode_tab_files (int n)"
      by blast
    have Qne: "Q \<noteq> []"
      unfolding Qn urlencode_tab_files_def by simp
    have qf: "query_file_id Q = Some (int n)"
      unfolding Qn by (rule query_file_id_canonical)
    have "normalize_mod_target_url c
            = Some (''https://www.nexusmods.com'' @ P @ ''?'' @ urlencode_tab_files (int n))"
      unfolding normalize_mod_target_url_def up
      using m n by (simp add: low rs qf)
    also have "''https://www.nexusmods.com'' @ P @ ''?'' @ urlencode_tab_files (int n) = c"
      using c Qne Qn by simp
    finally show ?thesis .
  qed
qed

lemma parse_mod_target_total: "\<exists>t. parse_mod_target url = Some t"
proof (cases "normalize_mod_target_url url")
  case None
  then show ?thesis by (simp add: parse_mod_target_def)
next
  case (Some c)
  obtain r where "urlparse c = Some r"
    using normalize_shape [OF Some] by blast
  with Some show ?thesis
    by (simp add: parse_mod_target_def split: list.splits option.splits)
qed


subsection \<open>The loop of \<open>dedupe_links\<close>\<close>

lemma set_keep_first_occurrences: "set (keep_first_occurrences xs) = set xs"
  by (induction xs rule: keep_first_occurrences.induct) auto

lemma distinct_keep_first_occurrences: "distinct (keep_first_occurrences xs)"
  by (induction xs rule: keep_first_occurrences.induct) (auto simp: set_keep_first_occurrences)

lemma keep_first_occurrences_distinct: "distinct xs \<Longrightarrow> keep_first_occurrences xs = xs"
proof (induction xs)
  case Nil
  show ?case by simp
next
  case (Cons x xs)
  then have "filter (\<lambda>y. y \<noteq> x) xs = xs"
    by (auto simp: filter_id_conv)
  with Cons show ?case by simp
qed

lemma dedupe_loop_spec:
  "seen = set out \<Longrightarrow>
   dedupe_loop ls seen out
     = out @ keep_first_occurrences
               (filter (\<lambda>c. c \<notin> set out) (List.map_filter normalize_mod_target_url ls))"
proof (induction ls arbitrary: seen out)
  case Nil
  show ?case by (simp add: List.map_filter_simps)
next
  case (Cons link ls)
  show ?case
  proof (cases "normalize_mod_target_url link")
    case None
    with Cons show ?thesis by (simp add: List.map_filter_simps)
  next
    case (Some c)
    show ?thesis
    proof (cases "c \<in> seen")
      case True
      with Some Cons show ?thesis by (simp add: List.map_filter_simps)
    next
      case False
      have f: "(\<lambda>y. y \<noteq> c \<and> y \<notin> set out) = (\<lambda>y. y \<notin> set out \<and> y \<noteq> c)"
        by auto
      have "dedupe_loop ls (insert c seen) (out @ [c])
              = (out @ [c]) @ keep_first_occurrences
                  (filter (\<lambda>y. y \<notin> set (out @ [c])) (List.map_filter normalize_mod_target_url ls))"
        by (rule Cons.IH) (simp add: Cons.prems)
      with Some False Cons.prems show ?thesis
        by (simp add: List.map_filter_simps f)
    qed
  qed
qed

lemma dedupe_links_spec: "dedupe_links ls = dedupe_spec ls"
  using dedupe_loop_spec [of "{}" "[]" ls] by (simp add: dedupe_links_def dedupe_spec_def)

lemma dedupe_links_canonical:
  assumes "x \<in> set (dedupe_links ls)"
  shows "normalize_mod_target_url x = Some x"
proof -
  have "x \<in> set (List.map_filter normalize_mod_target_url ls)"
    using assms by (simp add: dedupe_links_spec dedupe_spec_def set_keep_first_occurrences)
  then obtain l where "normalize_mod_target_url l = Some x"
    by (auto simp: List.map_filter_def)
  then show ?thesis by (rule normalize_idempotent)
qed

lemma distinct_dedupe_links: "distinct (dedupe_links ls)"
  by (simp add: dedupe_links_spec dedupe_spec_def distinct_keep_first_occurrences)

subsection \<open>Links in the extractor's own spelling\<close>

lemma payload_link_shape:
  "payload_link d m f =
     ''https://www.nexusmods.com'' @ (CHR ''/'' # d @ ''/mods/'' @ str_int m)
       @ (case positive_file_id f of None \<Rightarrow> [] | Some k \<Rightarrow> CHR ''?'' # urlencode_tab_files k)"
  by (simp add: payload_link_def positive_file_id_def split: option.splits)

lemma plain_domain_chars:
  assumes "plain_domain d"
  shows "d \<noteq> []" "lower d = d" "CHR ''/'' \<notin> set d" "CHR ''?'' \<notin> set d" "CHR ''#'' \<notin> set d"
    "\<forall>c \<in> set d. \<not> unsafe_url_byte c"
  using assms by (auto simp: plain_domain_def list_all_iff)

lemma mods_segment_plain:
  "CHR ''#'' \<notin> set ''/mods/''" "CHR ''?'' \<notin> set ''/mods/''"
  "\<forall>c \<in> set ''/mods/''. \<not> unsafe_url_byte c" "lower ''/mods/'' = ''/mods/''"
  "lower ''www.nexusmods.com'' = ''www.nexusmods.com''"
  by (simp_all add: unsafe_url_byte_def lower_def lower_char_def)

lemma MOD_PATH_RE_match_plain:
  assumes d: "d \<noteq> []" "CHR ''/'' \<notin> set d" and ds: "ds \<noteq> []" "list_all is_digit ds"
  shows "MOD_PATH_RE_match (CHR ''/'' # d @ ''/mods/'' @ ds)"
proof -
  have tk: "takeWhile is_digit ds = ds" "dropWhile is_digit ds = []"
    using ds(2) by (simp_all add: list_all_iff)
  show ?thesis
    unfolding MOD_PATH_RE_match_def Let_def
    using d ds(1)
    by (simp add: takeWhile_neq_append dropWhile_neq_append tk lower_def lower_char_def)
qed


lemma urlencode_tab_files_plain:
  "CHR ''#'' \<notin> set (urlencode_tab_files (int n))"
  "\<forall>c \<in> set (urlencode_tab_files (int n)). \<not> unsafe_url_byte c"
proof -
  have e: "str_int (int n) = str_nat n"
    by (simp only: str_int_def) simp
  note dp = digits_plain [OF str_nat_digits [of n]]
  show "CHR ''#'' \<notin> set (urlencode_tab_files (int n))"
    unfolding urlencode_tab_files_def e using dp(5) by simp
  show "\<forall>c \<in> set (urlencode_tab_files (int n)). \<not> unsafe_url_byte c"
    unfolding urlencode_tab_files_def e using dp(9) by (simp add: unsafe_url_byte_def)
qed

lemma strip_slash_plain:
  assumes d: "d \<noteq> []" "CHR ''/'' \<notin> set d" and ds: "ds \<noteq> []" "CHR ''/'' \<notin> set ds"
  shows "strip_char CHR ''/'' (CHR ''/'' # d @ ''/mods/'' @ ds) = d @ ''/mods/'' @ ds"
    and "rstrip_char CHR ''/'' (CHR ''/'' # d @ ''/mods/'' @ ds) = CHR ''/'' # d @ ''/mods/'' @ ds"
    and "split_on CHR ''/'' (d @ ''/mods/'' @ ds) = [d, ''mods'', ds]"
    and "last_segment (CHR ''/'' # d @ ''/mods/'' @ ds) = ds"
proof -
  obtain c d' where dc: "d = c # d'" and c: "c \<noteq> CHR ''/''"
    using d by (cases d) auto
  have l: "last (d @ ''/mods/'' @ ds) \<noteq> CHR ''/''"
    using ds by (simp add: last_append) (metis last_in_set)
  have l2: "last (CHR ''/'' # d @ ''/mods/'' @ ds) \<noteq> CHR ''/''"
    using ds by (simp add: last_append) (metis last_in_set)
  have r: "rstrip_char CHR ''/'' (d @ ''/mods/'' @ ds) = d @ ''/mods/'' @ ds"
    by (rule rstrip_char_id) (use l in blast)
  have "lstrip_char CHR ''/'' (CHR ''/'' # d @ ''/mods/'' @ ds) = d @ ''/mods/'' @ ds"
    using c by (simp add: lstrip_char_def dc)
  then show "strip_char CHR ''/'' (CHR ''/'' # d @ ''/mods/'' @ ds) = d @ ''/mods/'' @ ds"
    unfolding strip_char_def using r by simp
  show "rstrip_char CHR ''/'' (CHR ''/'' # d @ ''/mods/'' @ ds) = CHR ''/'' # d @ ''/mods/'' @ ds"
    by (rule rstrip_char_id) (use l2 in blast)
  have "split_on CHR ''/'' (d @ CHR ''/'' # (''mods'' @ CHR ''/'' # ds)) = d # split_on CHR ''/'' (''mods'' @ CHR ''/'' # ds)"
    using d(2) by (rule split_on_at)
  also have "split_on CHR ''/'' (''mods'' @ CHR ''/'' # ds) = ''mods'' # split_on CHR ''/'' ds"
    by (rule split_on_at) simp
  also have "split_on CHR ''/'' ds = [ds]"
    using ds(2) by (rule split_on_absent)
  finally show "split_on CHR ''/'' (d @ ''/mods/'' @ ds) = [d, ''mods'', ds]"
    by simp
  have "last_segment ((CHR ''/'' # d @ ''/mods'') @ CHR ''/'' # ds) = ds"
    using ds(2) by (rule last_segment_append)
  then show "last_segment (CHR ''/'' # d @ ''/mods/'' @ ds) = ds"
    by simp
qed

lemma payload_link_canonical:
  assumes pd: "plain_domain d" and m: "0 \<le> m"
  shows "normalize_mod_target_url (payload_link d m f) = Some (payload_link d m f)
         \<and> parse_mod_target (payload_link d m f) = Some (Some d, Some m, positive_file_id f)"
proof -
  define ds where "ds = str_nat (nat m)"
  define P' where "P' = d @ ''/mods/'' @ ds"
  have si: "str_int m = ds"
    using m by (simp add: str_int_def ds_def)
  have dne: "ds \<noteq> []" and dd: "list_all is_digit ds"
    unfolding ds_def by (rule str_nat_nonempty, rule str_nat_digits)
  note dp = digits_plain [OF dd]
  note pc = plain_domain_chars [OF pd]
  note st = strip_slash_plain [OF pc(1) pc(3) dne dp(7)]
  have ph: "CHR ''#'' \<notin> set P'" and pq: "CHR ''?'' \<notin> set P'"
    unfolding P'_def using pc dp by simp_all
  have pu: "\<forall>c \<in> set (CHR ''/'' # P'). \<not> unsafe_url_byte c"
    unfolding P'_def using pc(6) dp(9) by (auto simp: unsafe_url_byte_def)
  have ps: "CHR '';'' \<notin> set (last_segment (CHR ''/'' # P'))"
    unfolding P'_def st(4) by (rule dp(8))
  have mt: "MOD_PATH_RE_match (CHR ''/'' # P')"
    unfolding P'_def using pc(1) pc(3) dne dd by (rule MOD_PATH_RE_match_plain)
  have rs: "rstrip_char CHR ''/'' (CHR ''/'' # P') = CHR ''/'' # P'"
    unfolding P'_def by (rule st(2))
  have sp: "split_on CHR ''/'' (strip_char CHR ''/'' (CHR ''/'' # P')) = [d, ''mods'', ds]"
    unfolding P'_def st(1) by (rule st(3))
  have pi: "py_int ds = Some m"
    unfolding ds_def using m by (simp add: py_int_str_nat)
  show ?thesis
  proof (cases "positive_file_id f")
    case None
    have link: "payload_link d m f = ''https://www.nexusmods.com'' @ CHR ''/'' # P'"
      unfolding payload_link_shape None si P'_def by simp
    have up: "urlparse (payload_link d m f)
                = Some \<lparr>scheme = ''https'', netloc = ''www.nexusmods.com'', upath = CHR ''/'' # P',
                         params = [], query = [], fragment = []\<rparr>"
      unfolding link by (rule urlparse_canonical(1) [OF ph pq pu ps, of "[]"]) simp_all
    have ne: "payload_link d m f \<noteq> []"
      unfolding link by simp
    have n: "normalize_mod_target_url (payload_link d m f) = Some (payload_link d m f)"
      unfolding normalize_mod_target_url_def up
      using mt by (simp add: mods_segment_plain rs query_file_id_empty link)
    have "parse_mod_target (payload_link d m f) = Some (Some d, Some m, None)"
      unfolding parse_mod_target_def
      by (simp add: n up ne sp pi pc(2) query_file_id_empty)
    with n None show ?thesis by simp
  next
    case (Some k)
    then have kpos: "0 < k"
      by (auto simp: positive_file_id_def split: option.splits if_splits)
    define n where "n = nat k"
    have k: "k = int n" and npos: "0 < n"
      using kpos by (simp_all add: n_def)
    define Q where "Q = urlencode_tab_files (int n)"
    note qp = urlencode_tab_files_plain [of n, folded Q_def]
    have qf: "query_file_id Q = Some (int n)"
      unfolding Q_def by (rule query_file_id_canonical)
    have link: "payload_link d m f = ''https://www.nexusmods.com'' @ (CHR ''/'' # P') @ CHR ''?'' # Q"
      unfolding payload_link_shape Some si P'_def Q_def k by simp
    have up: "urlparse (payload_link d m f)
                = Some \<lparr>scheme = ''https'', netloc = ''www.nexusmods.com'', upath = CHR ''/'' # P',
                         params = [], query = Q, fragment = []\<rparr>"
      unfolding link by (rule urlparse_canonical(2) [OF ph pq pu ps qp])
    have ne: "payload_link d m f \<noteq> []"
      unfolding link by simp
    have n: "normalize_mod_target_url (payload_link d m f) = Some (payload_link d m f)"
      unfolding normalize_mod_target_url_def up
      using mt npos by (simp add: mods_segment_plain rs query_file_id_canonical link Q_def)
    have "parse_mod_target (payload_link d m f) = Some (Some d, Some m, Some k)"
      unfolding parse_mod_target_def
      by (simp add: n up ne sp pi pc(2) qf k)
    with n Some show ?thesis by simp
  qed
qed

lemma parse_mod_target_cong:
  "normalize_mod_target_url u = normalize_mod_target_url v \<Longrightarrow> parse_mod_target u = parse_mod_target v"
  by (simp add: parse_mod_target_def)

lemma payload_link_cong:
  "positive_file_id f = positive_file_id f' \<Longrightarrow> payload_link d m f = payload_link d m f'"
  by (simp add: payload_link_shape)

subsection \<open>The reasons of \<open>ok\<close> results\<close>

lemma startswith_append: "startswith (p @ s) p"
  by (simp add: startswith_def)

lemma find_download_path_prefixes:
  "find_download_path (''download_saved:'' @ p) = Some (Path (py_strip p))"
  "find_download_path (''direct_download:'' @ p) = Some (Path (py_strip p))"
  "find_download_path (''direct_download_insecure_ssl:'' @ p) = Some (Path (py_strip p))"
  "find_download_path (''download_file_detected:'' @ p) = None"
  "find_download_path ''manual_and_slow_clicked'' = None"
  by (simp_all add: find_download_path_def download_prefixes_def startswith_def)

lemma completion_loop_ok_reason:
  "status (fst (completion_loop url fe ps used)) = ''ok'' \<Longrightarrow>
   (\<exists>p. reason (fst (completion_loop url fe ps used)) = ''download_saved:'' @ p)
   \<or> (\<exists>p. reason (fst (completion_loop url fe ps used)) = ''download_file_detected:'' @ path_name p)"
  by (induction url fe ps used rule: completion_loop.induct) (auto split: option.splits if_splits)

lemma click_sequence_ok_reason:
  assumes "status (fst (click_sequence w url v)) = ''ok''"
  shows "(v \<and> ((\<exists>p. reason (fst (click_sequence w url v)) = ''download_saved:'' @ p)
              \<or> (\<exists>p. reason (fst (click_sequence w url v)) = ''download_file_detected:'' @ path_name p)))
         \<or> (\<not> v \<and> reason (fst (click_sequence w url v)) = ''manual_and_slow_clicked'')"
  using assms completion_loop_ok_reason [of url "final_download_errors w" "polls w" False]
  by (auto simp: click_sequence_def split: if_splits)

lemma click_fallback_status:
  "status (fst (click_fallback w url fu dry v))
     \<in> {''ok'', ''partial'', ''fail'', ''fallback_needed'', ''dry_run''}"
  using click_sequence_status [of w url v]
  by (auto simp: click_fallback_def split: prod.splits option.splits)

lemma click_fallback_ok_reason:
  assumes "status (fst (click_fallback w url fu dry v)) = ''ok''"
  shows "(v \<and> ((\<exists>p. reason (fst (click_fallback w url fu dry v)) = ''download_saved:'' @ p)
              \<or> (\<exists>p. reason (fst (click_fallback w url fu dry v)) = ''download_file_detected:'' @ path_name p)))
         \<or> (\<not> v \<and> reason (fst (click_fallback w url fu dry v)) = ''manual_and_slow_clicked'')"
proof -
  have "fst (click_fallback w url fu dry v) = fst (click_sequence w url v)"
    using assms by (auto simp: click_fallback_def split: prod.splits option.splits if_splits)
  with assms click_sequence_ok_reason [of w url v] show ?thesis
    by simp
qed

lemma direct_path_ok_reason:
  assumes "fst (direct_path w url c fu g f fb) = Some item" "status item = ''ok''"
  shows "\<exists>p. reason item = ''direct_download:'' @ p \<or> reason item = ''direct_download_insecure_ssl:'' @ p"
  using assms
  by (auto simp: direct_path_def direct_result_def split: prod.splits sum.splits if_splits)

lemma direct_args_verify: "direct_args v c g t = Some a \<Longrightarrow> v"
  by (auto simp: direct_args_def split: option.splits prod.splits if_splits)

lemma process_target_status:
  "status (fst (process_target w url dry v c g t))
     \<in> {''ok'', ''partial'', ''fail'', ''fallback_needed'', ''dry_run''}"
proof (cases "direct_args v c g t")
  case None
  then show ?thesis
    using click_fallback_status [of w url "files_url_of url" dry v]
    by (simp add: process_target_def)
next
  case (Some a)
  obtain ck gm dn mi fi where a: "a = (ck, gm, dn, mi, fi)"
    by (cases a) auto
  obtain r tr where d: "direct_path w url ck (files_url_of url) gm fi (fallback_name dn mi fi) = (r, tr)"
    by (cases "direct_path w url ck (files_url_of url) gm fi (fallback_name dn mi fi)")
  show ?thesis
  proof (cases r)
    case None
    with Some a d show ?thesis
      using click_fallback_status [of w url "files_url_of url" dry v]
      by (simp add: process_target_def)
  next
    case (Some item)
    then have "fst (direct_path w url ck (files_url_of url) gm fi (fallback_name dn mi fi)) = Some item"
      using d by simp
    then have "status item = ''ok'' \<or> status item = ''partial''"
      by (rule direct_path_status)
    with Some \<open>direct_args v c g t = Some a\<close> a d show ?thesis
      by (auto simp: process_target_def)
  qed
qed

lemma process_target_ok_reason:
  assumes ok: "status (fst (process_target w url dry v c g t)) = ''ok''"
  shows "(v \<and> (\<exists>p. reason (fst (process_target w url dry v c g t)) = ''direct_download:'' @ p
                   \<or> reason (fst (process_target w url dry v c g t)) = ''direct_download_insecure_ssl:'' @ p
                   \<or> reason (fst (process_target w url dry v c g t)) = ''download_saved:'' @ p))
         \<or> (v \<and> (\<exists>p. reason (fst (process_target w url dry v c g t)) = ''download_file_detected:'' @ path_name p))
         \<or> (\<not> v \<and> reason (fst (process_target w url dry v c g t)) = ''manual_and_slow_clicked'')"
proof -
  let ?cf = "click_fallback w url (files_url_of url) dry v"
  have cf: "fst (process_target w url dry v c g t) = fst ?cf \<Longrightarrow> ?thesis"
    using ok click_fallback_ok_reason [of w url "files_url_of url" dry v] by auto
  show ?thesis
  proof (cases "direct_args v c g t")
    case None
    then show ?thesis
      by (intro cf) (simp add: process_target_def)
  next
    case (Some a)
    then have v: v by (rule direct_args_verify)
    obtain ck gm dn mi fi where a: "a = (ck, gm, dn, mi, fi)"
      by (cases a) auto
    obtain r tr where d: "direct_path w url ck (files_url_of url) gm fi (fallback_name dn mi fi) = (r, tr)"
      by (cases "direct_path w url ck (files_url_of url) gm fi (fallback_name dn mi fi)")
    show ?thesis
    proof (cases r)
      case None
      with Some a d show ?thesis
        by (intro cf) (simp add: process_target_def)
    next
      case (Some item)
      have pt: "fst (process_target w url dry v c g t) = item"
        using Some \<open>direct_args v c g t = Some a\<close> a d by (simp add: process_target_def)
      have "fst (direct_path w url ck (files_url_of url) gm fi (fallback_name dn mi fi)) = Some item"
        using d Some by simp
      then have "\<exists>p. reason item = ''direct_download:'' @ p \<or> reason item = ''direct_download_insecure_ssl:'' @ p"
        using ok pt by (intro direct_path_ok_reason) simp_all
      with v pt show ?thesis by auto
    qed
  qed
qed

subsection \<open>The paths recovered from the results\<close>














subsection \<open>Suspicious file names\<close>

text \<open>
  Claim C3 as it is stated: a name is classified suspicious exactly when it matches the
  UUID-shaped pattern and has no archive extension. \<open>readme.txt\<close> does not match the
  pattern, and is classified suspicious all the same: the direct path reports it as
  \<open>partial\<close> with a suspicious-filename reason.
\<close>

theorem suspicious_iff_uuid_counterexample:
  "\<not> (\<not> is_good_archive_name ''readme.txt''
        \<longleftrightarrow> SUSPICIOUS_FILENAME_RE_match (path_name ''readme.txt'')
             \<and> \<not> has_archive_extension ''readme.txt'')
   \<and> direct_result mod_12_file_5 ''direct_download:'' ''/home/u/Downloads/readme.txt''
       = \<lparr>index = 0, mod_url = mod_12_file_5, status = ''partial'',
            reason = ''direct_download_suspicious:readme.txt''\<rparr>"
  by code_simp

text \<open>
  Claim C3, amended. A name is a good archive name exactly when it ends, case ignored, in
  \<open>.zip\<close>, \<open>.7z\<close> or \<open>.rar\<close>; whether it matches the UUID-shaped pattern changes nothing.
  When the direct path returns a result, it has downloaded a file: the result is \<open>ok\<close> with
  the file's path in the reason when the file's name has such an extension, and \<open>partial\<close>
  with the reason \<open>direct_download_suspicious:\<close> and the name otherwise.
\<close>

theorem archive_extension_decides:
  "(is_good_archive_name nm \<longleftrightarrow> has_archive_extension nm)
   \<and> (direct_path w url c fu g f fb = (Some item, tr) \<longrightarrow>
        (\<exists>p. (fst (direct_attempt w False c fu g f fb) = Inr p
               \<or> fst (direct_attempt w True c fu g f fb) = Inr p)
             \<and> (if has_archive_extension (path_name p)
                 then status item = ''ok''
                      \<and> (reason item = ''direct_download:'' @ p
                          \<or> reason item = ''direct_download_insecure_ssl:'' @ p)
                 else status item = ''partial''
                      \<and> reason item = ''direct_download_suspicious:'' @ path_name p)))"
proof (intro conjI impI)
  show "is_good_archive_name nm \<longleftrightarrow> has_archive_extension nm"
    by (rule is_good_archive_name_iff)
next
  assume a: "direct_path w url c fu g f fb = (Some item, tr)"
  obtain r1 t1 where d1: "direct_attempt w False c fu g f fb = (r1, t1)"
    by (cases "direct_attempt w False c fu g f fb")
  obtain r2 t2 where d2: "direct_attempt w True c fu g f fb = (r2, t2)"
    by (cases "direct_attempt w True c fu g f fb")
  show "\<exists>p. (fst (direct_attempt w False c fu g f fb) = Inr p
               \<or> fst (direct_attempt w True c fu g f fb) = Inr p)
             \<and> (if has_archive_extension (path_name p)
                 then status item = ''ok''
                      \<and> (reason item = ''direct_download:'' @ p
                          \<or> reason item = ''direct_download_insecure_ssl:'' @ p)
                 else status item = ''partial''
                      \<and> reason item = ''direct_download_suspicious:'' @ path_name p)"
  proof (cases r1)
    case (Inr p)
    with a d1 have "item = direct_result url ''direct_download:'' p"
      by (simp add: direct_path_def)
    with Inr d1 show ?thesis
      by (intro exI [of _ p]) (simp add: direct_result_def is_good_archive_name_iff)
  next
    case (Inl e)
    show ?thesis
    proof (cases r2)
      case i2: (Inl e2)
      with a d1 d2 Inl show ?thesis
        by (simp add: direct_path_def split: if_splits)
    next
      case (Inr p)
      with a d1 d2 Inl have "item = direct_result url ''direct_download_insecure_ssl:'' p"
        by (simp add: direct_path_def split: if_splits)
      with Inr d2 show ?thesis
        by (intro exI [of _ p]) (simp add: direct_result_def is_good_archive_name_iff)
    qed
  qed
qed

theorem archive_extension_decides_witness:
  "is_good_archive_name ''Mod.ZIP''
   \<and> \<not> is_good_archive_name ''123e4567-e89b-12d3-a456-426614174000''
   \<and> (\<exists>item tr. direct_path (direct_world ''/home/u/Downloads/readme.txt'') mod_12_file_5 ''sid=1''
                       (files_url_of mod_12_file_5) 1303 5 (fallback_name ''skyrim'' 12 5)
                     = (Some item, tr)
                   \<and> status item = ''partial''
                   \<and> reason item = ''direct_download_suspicious:readme.txt'')"
proof -
  let ?w = "direct_world ''/home/u/Downloads/readme.txt''"
  let ?fu = "files_url_of mod_12_file_5"
  let ?fb = "fallback_name ''skyrim'' 12 5"
  have a: "has_archive_extension ''Mod.ZIP''"
    by code_simp
  have c: "\<not> has_archive_extension ''123e4567-e89b-12d3-a456-426614174000''"
    by code_simp
  have at1: "direct_attempt ?w False ''sid=1'' ?fu 1303 5 ?fb
               = (Inr ''/home/u/Downloads/readme.txt'', [ResolveUrl False, DirectDownload False])"
    by (simp add: direct_attempt_def direct_world_def silent_world_def)
  have at2: "direct_attempt ?w True ''sid=1'' ?fu 1303 5 ?fb
               = (Inr ''/home/u/Downloads/readme.txt'', [ResolveUrl True, DirectDownload True])"
    by (simp add: direct_attempt_def direct_world_def silent_world_def)
  obtain item tr where dp: "direct_path ?w mod_12_file_5 ''sid=1'' ?fu 1303 5 ?fb = (Some item, tr)"
    using at1 by (simp add: direct_path_def)
  have nm: "path_name ''/home/u/Downloads/readme.txt'' = ''readme.txt''"
    by code_simp
  have b: "\<not> has_archive_extension ''readme.txt''"
    by code_simp
  have "status item = ''partial'' \<and> reason item = ''direct_download_suspicious:readme.txt''"
    using archive_extension_decides [THEN conjunct2, THEN mp, OF dp] at1 at2 nm b
    by auto
  with dp have d: "\<exists>item tr. direct_path ?w mod_12_file_5 ''sid=1'' ?fu 1303 5 ?fb = (Some item, tr)
                   \<and> status item = ''partial''
                   \<and> reason item = ''direct_download_suspicious:readme.txt''"
    by blast
  have e: "is_good_archive_name ''Mod.ZIP''"
    using archive_extension_decides [THEN conjunct1, of "''Mod.ZIP''"] a by blast
  have f: "\<not> is_good_archive_name ''123e4567-e89b-12d3-a456-426614174000''"
    using archive_extension_decides [THEN conjunct1, of "''123e4567-e89b-12d3-a456-426614174000''"] c
    by blast
  from e f d show ?thesis
    by (intro conjI)
qed

subsection \<open>C8: deduplication\<close>

text \<open>
  C8. For every list of links, \<open>dedupe_links\<close> returns what the specification describes: the
  canonical forms of the links the normalizer accepts, each kept at its first occurrence,
  in input order. No two entries of the result have the same canonical form (every entry
  is its own canonical form, and the entries are pairwise different). For links \<open>a\<close>, \<open>b\<close>,
  \<open>c\<close> with different canonical forms, \<open>dedupe [a, b, a, c]\<close> is the list of the canonical
  forms of \<open>a\<close>, \<open>b\<close>, \<open>c\<close>. The \<open>links\<close> of the \<open>ExtractionResult\<close> built from the network
  payloads, and the links taken from the page, are results of \<open>dedupe_links\<close>, so they have
  no two entries of equal canonical form either.
\<close>

theorem dedupe_first_seen_no_duplicates:
  "dedupe_links ls = dedupe_spec ls
   \<and> distinct (map normalize_mod_target_url (dedupe_links ls))
   \<and> (\<forall>x \<in> set (dedupe_links ls). normalize_mod_target_url x = Some x)
   \<and> (normalize_mod_target_url a = Some a' \<and> normalize_mod_target_url b = Some b'
        \<and> normalize_mod_target_url c = Some c' \<and> distinct [a', b', c']
      \<longrightarrow> dedupe_links [a, b, a, c] = [a', b', c'])
   \<and> distinct (map normalize_mod_target_url (links (collect_links_via_network payload_links)))
   \<and> distinct (map normalize_mod_target_url (extract_mod_links hrefs))"
proof -
  have canon: "map normalize_mod_target_url (dedupe_links xs) = map Some (dedupe_links xs)" for xs
    by (rule map_cong) (simp_all add: dedupe_links_canonical)
  have d: "distinct (map normalize_mod_target_url (dedupe_links xs))" for xs
    unfolding canon by (simp add: distinct_map distinct_dedupe_links)
  have ex: "dedupe_links [a, b, a, c] = [a', b', c']"
    if "normalize_mod_target_url a = Some a'" "normalize_mod_target_url b = Some b'"
       "normalize_mod_target_url c = Some c'" "distinct [a', b', c']"
    using that by (auto simp: dedupe_links_def)
  show ?thesis
    using d ex
    by (simp add: dedupe_links_spec [symmetric] dedupe_links_canonical
                  collect_links_via_network_def extract_mod_links_def)
qed

theorem dedupe_first_seen_no_duplicates_witness:
  "dedupe_links page_links = dedupe_spec page_links
   \<and> dedupe_links page_links = [mod_12_file_5, mod_7, mod_3]
   \<and> distinct (map normalize_mod_target_url (dedupe_links page_links))
   \<and> list_all (\<lambda>x. normalize_mod_target_url x = Some x) (dedupe_links page_links)
   \<and> dedupe_links [mod_12_file_5_bare, mod_7_description, mod_12_file_5_bare, mod_3]
       = [mod_12_file_5, mod_7, mod_3]
   \<and> distinct (map normalize_mod_target_url
                 (links (collect_links_via_network [[mod_7, mod_3], [mod_7_description]])))
   \<and> distinct (map normalize_mod_target_url (extract_mod_links page_links))"
proof -
  have a: "normalize_mod_target_url mod_12_file_5_bare = Some mod_12_file_5" by code_simp
  have b: "normalize_mod_target_url mod_7_description = Some mod_7" by code_simp
  have c: "normalize_mod_target_url mod_3 = Some mod_3" by code_simp
  have d: "distinct [mod_12_file_5, mod_7, mod_3]" by code_simp
  have e: "dedupe_links page_links = [mod_12_file_5, mod_7, mod_3]" by code_simp
  note t = dedupe_first_seen_no_duplicates
             [of page_links mod_12_file_5_bare mod_12_file_5 mod_7_description mod_7
                 mod_3 mod_3 "[[mod_7, mod_3], [mod_7_description]]" page_links]
  have t1: "dedupe_links page_links = dedupe_spec page_links"
    using t by (rule conjunct1)
  note t = t [THEN conjunct2]
  have t2: "distinct (map normalize_mod_target_url (dedupe_links page_links))"
    using t by (rule conjunct1)
  note t = t [THEN conjunct2]
  have t3: "list_all (\<lambda>x. normalize_mod_target_url x = Some x) (dedupe_links page_links)"
    using t [THEN conjunct1] unfolding list_all_iff .
  note t = t [THEN conjunct2]
  have t4: "dedupe_links [mod_12_file_5_bare, mod_7_description, mod_12_file_5_bare, mod_3]
              = [mod_12_file_5, mod_7, mod_3]"
    using t [THEN conjunct1] a b c d by blast
  note t = t [THEN conjunct2]
  show ?thesis
    using t1 e t2 t3 t4 t by blast
qed

subsection \<open>C4: canonical strings and identity triples\<close>

text \<open>
  Claim C4 as it is stated: two accepted URLs have equal canonical strings if and only if
  their (domain, mod id, file id) triples match. The normalizer accepts
  \<open>https://www.nexusmods.com/Skyrim/mods/12\<close> and \<open>https://www.nexusmods.com/skyrim/mods/12\<close>
  and returns each unchanged, so their canonical strings differ; \<open>parse_mod_target\<close> gives
  both the triple (skyrim, 12, none). The same holds for \<open>/skyrim/mods/012\<close>, and
  \<open>dedupe_links\<close> keeps all three.
\<close>

theorem canonical_iff_triple_counterexample:
  "normalize_mod_target_url mod_12_capital = Some mod_12_capital
   \<and> normalize_mod_target_url mod_12 = Some mod_12
   \<and> parse_mod_target mod_12_capital = Some (Some ''skyrim'', Some 12, None)
   \<and> parse_mod_target mod_12 = Some (Some ''skyrim'', Some 12, None)
   \<and> \<not> (normalize_mod_target_url mod_12_capital = normalize_mod_target_url mod_12
          \<longleftrightarrow> parse_mod_target mod_12_capital = parse_mod_target mod_12)
   \<and> \<not> (normalize_mod_target_url mod_12_zeros = normalize_mod_target_url mod_12
          \<longleftrightarrow> parse_mod_target mod_12_zeros = parse_mod_target mod_12)
   \<and> dedupe_links [mod_12_capital, mod_12, mod_12_zeros] = [mod_12_capital, mod_12, mod_12_zeros]"
  by code_simp

text \<open>
  Claim C4, amended. Two URLs with equal canonical strings have matching triples. A link
  in the spelling the extractor writes (\<open>payload_link\<close>: a plain lower-case domain, the mod
  id as a decimal number without sign or leading zeros, the file id only when it is
  positive) is its own canonical string, and its triple is that domain, that mod id and
  that file id. For two URLs whose canonical strings are in this spelling, the canonical
  strings are equal if and only if the triples match.
\<close>

theorem canonical_equal_iff_triples_in_plain_spelling:
  "(normalize_mod_target_url u = normalize_mod_target_url v
      \<longrightarrow> parse_mod_target u = parse_mod_target v)
   \<and> (plain_domain d \<and> 0 \<le> m
      \<longrightarrow> normalize_mod_target_url (payload_link d m f) = Some (payload_link d m f)
          \<and> parse_mod_target (payload_link d m f) = Some (Some d, Some m, positive_file_id f))
   \<and> (normalize_mod_target_url u = Some (payload_link d m f)
        \<and> normalize_mod_target_url v = Some (payload_link d' m' f')
        \<and> plain_domain d \<and> plain_domain d' \<and> 0 \<le> m \<and> 0 \<le> m'
      \<longrightarrow> parse_mod_target u = Some (Some d, Some m, positive_file_id f)
          \<and> parse_mod_target v = Some (Some d', Some m', positive_file_id f')
          \<and> (normalize_mod_target_url u = normalize_mod_target_url v
               \<longleftrightarrow> parse_mod_target u = parse_mod_target v))"
proof (intro conjI impI)
  assume "normalize_mod_target_url u = normalize_mod_target_url v"
  then show "parse_mod_target u = parse_mod_target v"
    by (rule parse_mod_target_cong)
next
  assume "plain_domain d \<and> 0 \<le> m"
  then show "normalize_mod_target_url (payload_link d m f) = Some (payload_link d m f)"
    and "parse_mod_target (payload_link d m f) = Some (Some d, Some m, positive_file_id f)"
    using payload_link_canonical [of d m f] by blast+
next
  assume a: "normalize_mod_target_url u = Some (payload_link d m f)
        \<and> normalize_mod_target_url v = Some (payload_link d' m' f')
        \<and> plain_domain d \<and> plain_domain d' \<and> 0 \<le> m \<and> 0 \<le> m'"
  then have nu: "normalize_mod_target_url u = Some (payload_link d m f)"
    and nv: "normalize_mod_target_url v = Some (payload_link d' m' f')"
    and pd: "plain_domain d" "plain_domain d'" and m: "0 \<le> m" "0 \<le> m'"
    by blast+
  note c = payload_link_canonical [OF pd(1) m(1), of f]
  note c' = payload_link_canonical [OF pd(2) m(2), of f']
  have "parse_mod_target u = parse_mod_target (payload_link d m f)"
    by (rule parse_mod_target_cong) (simp add: nu c)
  then show pu: "parse_mod_target u = Some (Some d, Some m, positive_file_id f)"
    using c by simp
  have "parse_mod_target v = parse_mod_target (payload_link d' m' f')"
    by (rule parse_mod_target_cong) (simp add: nv c')
  then show pv: "parse_mod_target v = Some (Some d', Some m', positive_file_id f')"
    using c' by simp
  show "normalize_mod_target_url u = normalize_mod_target_url v
          \<longleftrightarrow> parse_mod_target u = parse_mod_target v"
  proof
    assume "normalize_mod_target_url u = normalize_mod_target_url v"
    then show "parse_mod_target u = parse_mod_target v"
      by (rule parse_mod_target_cong)
  next
    assume "parse_mod_target u = parse_mod_target v"
    then have "d = d'" "m = m'" "positive_file_id f = positive_file_id f'"
      using pu pv by simp_all
    then have "payload_link d m f = payload_link d' m' f'"
      using payload_link_cong [of f f' d m] by simp
    then show "normalize_mod_target_url u = normalize_mod_target_url v"
      using nu nv by simp
  qed
qed

theorem canonical_equal_iff_triples_in_plain_spelling_witness:
  "plain_domain ''skyrim''
   \<and> normalize_mod_target_url mod_12_file_5_bare = Some (payload_link ''skyrim'' 12 (Some 5))
   \<and> normalize_mod_target_url mod_7_description = Some (payload_link ''skyrim'' 7 None)
   \<and> parse_mod_target mod_12_file_5_bare = Some (Some ''skyrim'', Some 12, Some 5)
   \<and> parse_mod_target mod_7_description = Some (Some ''skyrim'', Some 7, None)
   \<and> parse_mod_target mod_12_file_5_bare = parse_mod_target mod_12_file_5
   \<and> normalize_mod_target_url mod_12_file_5_bare \<noteq> normalize_mod_target_url mod_7_description
   \<and> normalize_mod_target_url (payload_link ''skyrim'' 12 (Some 5))
       = Some (payload_link ''skyrim'' 12 (Some 5))"
proof -
  have pd: "plain_domain ''skyrim''" by code_simp
  have nu: "normalize_mod_target_url mod_12_file_5_bare = Some (payload_link ''skyrim'' 12 (Some 5))"
    by code_simp
  have nv: "normalize_mod_target_url mod_7_description = Some (payload_link ''skyrim'' 7 None)"
    by code_simp
  have nw: "normalize_mod_target_url mod_12_file_5_bare = normalize_mod_target_url mod_12_file_5"
    by code_simp
  have pf: "positive_file_id (Some 5) = Some 5" "positive_file_id None = None"
    by (simp_all add: positive_file_id_def)
  note t = canonical_equal_iff_triples_in_plain_spelling
             [of mod_12_file_5_bare mod_7_description "''skyrim''" 12 "Some 5" "''skyrim''" 7 None]
  note t3 = t [THEN conjunct2, THEN conjunct2, THEN mp]
  have h: "parse_mod_target mod_12_file_5_bare = Some (Some ''skyrim'', Some 12, Some 5)
           \<and> parse_mod_target mod_7_description = Some (Some ''skyrim'', Some 7, None)
           \<and> (normalize_mod_target_url mod_12_file_5_bare = normalize_mod_target_url mod_7_description
                \<longleftrightarrow> parse_mod_target mod_12_file_5_bare = parse_mod_target mod_7_description)"
    using t3 nu nv pd pf by simp
  then have ne: "normalize_mod_target_url mod_12_file_5_bare \<noteq> normalize_mod_target_url mod_7_description"
    by simp
  have e: "parse_mod_target mod_12_file_5_bare = parse_mod_target mod_12_file_5"
    using canonical_equal_iff_triples_in_plain_spelling
            [of mod_12_file_5_bare mod_12_file_5, THEN conjunct1, THEN mp, OF nw] .
  have c: "normalize_mod_target_url (payload_link ''skyrim'' 12 (Some 5))
             = Some (payload_link ''skyrim'' 12 (Some 5))"
    using t [THEN conjunct2, THEN conjunct1, THEN mp] pd by simp
  from pd nu nv h ne e c show ?thesis
    by blast
qed

subsection \<open>C2: the statuses and the reason of an ok result\<close>

text \<open>
  Claim C2 as it is stated: every \<open>ok\<close> result carries a resolvable file path in its
  reason. With verification off, a page that shows a slow-download control gives \<open>ok\<close> with
  the reason \<open>manual_and_slow_clicked\<close>, which holds no path. With verification on, a file
  found by the poll of the downloads directory gives \<open>ok\<close> with the reason
  \<open>download_file_detected:\<close> followed by the file's name alone, from which
  \<open>find_download_path\<close> recovers nothing.
\<close>

theorem ok_without_path_counterexample:
  "map_option fst (process_mod slow_world mod_12_file_5 False False (Some ''sid=1'') (Some 1303))
     = Some \<lparr>index = 0, mod_url = mod_12_file_5, status = ''ok'',
              reason = ''manual_and_slow_clicked''\<rparr>
   \<and> find_download_path ''manual_and_slow_clicked'' = None
   \<and> map_option fst (process_mod detected_world mod_12_file_5 False True None None)
     = Some \<lparr>index = 0, mod_url = mod_12_file_5, status = ''ok'',
              reason = ''download_file_detected:Mod.zip''\<rparr>
   \<and> find_download_path ''download_file_detected:Mod.zip'' = None"
  by code_simp

text \<open>
  Claim C2, amended. \<open>process_mod\<close> returns a result for every URL, and its status is one of
  \<open>ok\<close>, \<open>partial\<close>, \<open>fail\<close>, \<open>fallback_needed\<close>, \<open>dry_run\<close>. When the status is \<open>ok\<close>, the
  reason has one of three forms. With verification on it is \<open>direct_download:\<close>,
  \<open>direct_download_insecure_ssl:\<close> or \<open>download_saved:\<close> followed by the path of the file,
  which \<open>find_download_path\<close> recovers; or it is \<open>download_file_detected:\<close> followed by the
  name of the file that the poll of the downloads directory found. With verification off
  it is \<open>manual_and_slow_clicked\<close>, without a path.
\<close>

theorem status_enum_and_ok_reason:
  "\<exists>item tr. process_mod w url dry verify c g = Some (item, tr)
     \<and> status item \<in> set [''ok'', ''partial'', ''fail'', ''fallback_needed'', ''dry_run'']
     \<and> (status item = ''ok'' \<longrightarrow>
          (verify \<and> (\<exists>p. (reason item = ''direct_download:'' @ p
                           \<or> reason item = ''direct_download_insecure_ssl:'' @ p
                           \<or> reason item = ''download_saved:'' @ p)
                          \<and> find_download_path (reason item) = Some (Path (py_strip p))))
          \<or> (verify \<and> (\<exists>p. reason item = ''download_file_detected:'' @ path_name p))
          \<or> (\<not> verify \<and> reason item = ''manual_and_slow_clicked''
                \<and> find_download_path (reason item) = None))"
proof -
  obtain t where t: "parse_mod_target url = Some t"
    using parse_mod_target_total by blast
  define r where "r = process_target w url dry verify c g t"
  have pm: "process_mod w url dry verify c g = Some (fst r, snd r)"
    by (simp add: process_mod_def t r_def)
  have st: "status (fst r) \<in> set [''ok'', ''partial'', ''fail'', ''fallback_needed'', ''dry_run'']"
    using process_target_status [of w url dry verify c g t] by (simp add: r_def)
  have ok: "(verify \<and> (\<exists>p. (reason (fst r) = ''direct_download:'' @ p
                           \<or> reason (fst r) = ''direct_download_insecure_ssl:'' @ p
                           \<or> reason (fst r) = ''download_saved:'' @ p)
                          \<and> find_download_path (reason (fst r)) = Some (Path (py_strip p))))
          \<or> (verify \<and> (\<exists>p. reason (fst r) = ''download_file_detected:'' @ path_name p))
          \<or> (\<not> verify \<and> reason (fst r) = ''manual_and_slow_clicked''
                \<and> find_download_path (reason (fst r)) = None)"
    if "status (fst r) = ''ok''"
  proof -
    note fp = find_download_path_prefixes
    from that have "(verify \<and> (\<exists>p. reason (fst r) = ''direct_download:'' @ p
                   \<or> reason (fst r) = ''direct_download_insecure_ssl:'' @ p
                   \<or> reason (fst r) = ''download_saved:'' @ p))
         \<or> (verify \<and> (\<exists>p. reason (fst r) = ''download_file_detected:'' @ path_name p))
         \<or> (\<not> verify \<and> reason (fst r) = ''manual_and_slow_clicked'')"
      unfolding r_def by (rule process_target_ok_reason)
    then consider
        (path) p where verify
          "reason (fst r) = ''direct_download:'' @ p
           \<or> reason (fst r) = ''direct_download_insecure_ssl:'' @ p
           \<or> reason (fst r) = ''download_saved:'' @ p"
      | (name) p where verify "reason (fst r) = ''download_file_detected:'' @ path_name p"
      | (clicked) "\<not> verify" "reason (fst r) = ''manual_and_slow_clicked''"
      by blast
    then show ?thesis
    proof cases
      case path
      from path(2) have "find_download_path (reason (fst r)) = Some (Path (py_strip p))"
        by (elim disjE) (simp_all only: fp)
      with path show ?thesis by blast
    next
      case name
      then show ?thesis by blast
    next
      case clicked
      from clicked(2) have "find_download_path (reason (fst r)) = None"
        by (simp only: fp)
      with clicked show ?thesis by blast
    qed
  qed
  from pm st ok show ?thesis
    by blast
qed

theorem status_enum_and_ok_reason_witness:
  "\<exists>item tr. process_mod saved_world mod_12_file_5 False True None None = Some (item, tr)
     \<and> status item = ''ok''
     \<and> reason item = ''download_saved:/home/u/Downloads/Mod.zip''
     \<and> find_download_path (reason item) = Some ''/home/u/Downloads/Mod.zip''"
proof -
  obtain item tr where pm: "process_mod saved_world mod_12_file_5 False True None None = Some (item, tr)"
    and ok: "status item = ''ok'' \<longrightarrow>
          (True \<and> (\<exists>p. (reason item = ''direct_download:'' @ p
                           \<or> reason item = ''direct_download_insecure_ssl:'' @ p
                           \<or> reason item = ''download_saved:'' @ p)
                          \<and> find_download_path (reason item) = Some (Path (py_strip p))))
          \<or> (True \<and> (\<exists>p. reason item = ''download_file_detected:'' @ path_name p))
          \<or> (\<not> True \<and> reason item = ''manual_and_slow_clicked''
                \<and> find_download_path (reason item) = None)"
    using status_enum_and_ok_reason [of saved_world mod_12_file_5 False True None None] by blast
  have e: "map_option fst (process_mod saved_world mod_12_file_5 False True None None)
             = Some \<lparr>index = 0, mod_url = mod_12_file_5, status = ''ok'',
                      reason = ''download_saved:/home/u/Downloads/Mod.zip''\<rparr>"
    by code_simp
  have i: "item = \<lparr>index = 0, mod_url = mod_12_file_5, status = ''ok'',
                    reason = ''download_saved:/home/u/Downloads/Mod.zip''\<rparr>"
    using e pm by simp
  have s: "status item = ''ok''" and r: "reason item = ''download_saved:/home/u/Downloads/Mod.zip''"
    using i by simp_all
  have "find_download_path (reason item) \<noteq> None"
    using ok s r by auto
  moreover have "find_download_path ''download_saved:/home/u/Downloads/Mod.zip''
                   = Some ''/home/u/Downloads/Mod.zip''"
    by code_simp
  ultimately show ?thesis
    using pm s r by simp
qed

subsection \<open>C1: the handoff to the Install Stager\<close>




subsection \<open>The retry of the direct path\<close>

text \<open>
  Claim C5. Suppose the direct path is attempted and its first run (with certificate
  verification) raises an exception \<open>e\<close>. Then the unverified TLS context is used for exactly
  one URL resolution if \<open>e\<close> is a certificate-verification error and for none otherwise; in
  the first case the whole direct path (resolution, then download) is run once more with
  the unverified context, directly after the failure; and when \<open>e\<close> is any other error, or
  the retry raises too, the item's result is the result of the click fallback, whose actions
  follow those of the direct path.
\<close>

theorem ssl_retry_once_then_click_fallback:
  assumes args: "direct_args verify cookie_header game_id target = Some (c, g, d, m, f)"
      and first: "direct_attempt w False c (files_url_of url) g f (fallback_name d m f) = (Inl e, tr1)"
  shows "(let out = process_target w url dry verify cookie_header game_id target;
              retry = direct_attempt w True c (files_url_of url) g f (fallback_name d m f);
              click = click_fallback w url (files_url_of url) dry verify
          in count_list (snd out) (ResolveUrl True) = (if is_ssl_verify_error e then 1 else 0)
             \<and> (is_ssl_verify_error e \<longrightarrow>
                    take (length tr1 + length (snd retry)) (snd out) = tr1 @ snd retry
                    \<and> hd (snd retry) = ResolveUrl True)
             \<and> (is_ssl_verify_error e \<and> (\<exists>e2. fst retry = Inl e2) \<longrightarrow>
                    out = (fst click, tr1 @ snd retry @ snd click))
             \<and> (\<not> is_ssl_verify_error e \<longrightarrow> out = (fst click, tr1 @ snd click)))"
proof -
  let ?retry = "direct_attempt w True c (files_url_of url) g f (fallback_name d m f)"
  let ?click = "click_fallback w url (files_url_of url) dry verify"
  have tr1: "tr1 = [ResolveUrl False] \<or> tr1 = [ResolveUrl False, DirectDownload False]"
    using direct_attempt_trace [of w False c "files_url_of url" g f "fallback_name d m f"] first
    by simp
  have retry: "snd ?retry = [ResolveUrl True] \<or> snd ?retry = [ResolveUrl True, DirectDownload True]"
    by (rule direct_attempt_trace)
  have click0: "count_list (snd ?click) (ResolveUrl True) = 0"
    by (rule click_fallback_no_resolve)
  show ?thesis
  proof (cases "is_ssl_verify_error e")
    case False
    then show ?thesis
      using args first tr1 click0
      by (auto simp: process_target_def direct_path_def Let_def)
  next
    case True
    obtain r2 tr2 where r2: "?retry = (r2, tr2)"
      by (cases ?retry)
    show ?thesis
    proof (cases r2)
      case (Inl e2)
      then show ?thesis
        using True args first tr1 retry click0 r2
        by (auto simp: process_target_def direct_path_def Let_def)
    next
      case (Inr p)
      then show ?thesis
        using True args first tr1 retry click0 r2
        by (auto simp: process_target_def direct_path_def Let_def)
    qed
  qed
qed

theorem ssl_retry_once_then_click_fallback_witness:
  "count_list (snd (process_target ssl_broken_world mod_12_file_5 False True (Some ''sid=1'')
                      (Some 1303) skyrim_12_5)) (ResolveUrl True) = 1
   \<and> take 2 (snd (process_target ssl_broken_world mod_12_file_5 False True (Some ''sid=1'')
                      (Some 1303) skyrim_12_5)) = [ResolveUrl False, ResolveUrl True]
   \<and> status (fst (process_target ssl_broken_world mod_12_file_5 False True (Some ''sid=1'')
                      (Some 1303) skyrim_12_5)) = ''fallback_needed''"
proof -
  let ?e = "''<urlopen error [SSL: CERTIFICATE_VERIFY_FAILED] certificate verify failed (_ssl.c:1006)>''"
  have args: "direct_args True (Some ''sid=1'') (Some 1303) skyrim_12_5
                = Some (''sid=1'', 1303, ''skyrim'', 12, 5)"
    by (simp add: direct_args_def skyrim_12_5_def)
  have first: "direct_attempt ssl_broken_world False ''sid=1'' (files_url_of mod_12_file_5) 1303 5
                 (fallback_name ''skyrim'' 12 5) = (Inl ?e, [ResolveUrl False])"
    by (simp add: direct_attempt_def ssl_broken_world_def silent_world_def)
  have retry: "direct_attempt ssl_broken_world True ''sid=1'' (files_url_of mod_12_file_5) 1303 5
                 (fallback_name ''skyrim'' 12 5) = (Inl ?e, [ResolveUrl True])"
    by (simp add: direct_attempt_def ssl_broken_world_def silent_world_def)
  have ssl: "is_ssl_verify_error ?e"
    by code_simp
  have click: "status (fst (click_fallback ssl_broken_world mod_12_file_5
                 (files_url_of mod_12_file_5) False True)) = ''fallback_needed''"
    by (simp add: click_fallback_def navigate_def click_sequence_def truthy_str_def
        ssl_broken_world_def silent_world_def)
  let ?out = "process_target ssl_broken_world mod_12_file_5 False True (Some ''sid=1'')
                (Some 1303) skyrim_12_5"
  let ?click = "click_fallback ssl_broken_world mod_12_file_5 (files_url_of mod_12_file_5) False True"
  have main: "count_list (snd ?out) (ResolveUrl True) = 1
              \<and> take 2 (snd ?out) = [ResolveUrl False, ResolveUrl True]
              \<and> ?out = (fst ?click, [ResolveUrl False] @ [ResolveUrl True] @ snd ?click)"
    using ssl_retry_once_then_click_fallback [OF args first, where dry = False] ssl retry
    by (simp add: Let_def click_fallback_no_resolve)
  from main have a: "count_list (snd ?out) (ResolveUrl True) = 1"
    by (rule conjunct1)
  from main have b: "take 2 (snd ?out) = [ResolveUrl False, ResolveUrl True]"
    by (rule conjunct1 [OF conjunct2])
  from main have "fst ?out = fst ?click"
    by (metis fst_conv)
  with click have c: "status (fst ?out) = ''fallback_needed''"
    by simp
  from a b c show ?thesis
    by (intro conjI)
qed

subsection \<open>The click sequence\<close>

text \<open>
  Claim C6. In the click fallback, once the page has loaded and the run is not a dry run,
  the first search after the listener is registered is for the slow/free-download
  selectors. When that finds a control, the manual-download selectors are never searched.
  When it finds none, the manual-download selectors are searched next; when they find
  none either, the result has status \<open>fallback_needed\<close>, and when they do but the second
  search for the slow/free-download selectors fails, the result has status \<open>partial\<close>.
\<close>

theorem click_sequence_order:
  assumes nav: "navigate w furl = (None, tr)" and live: "\<not> dry"
  shows "(let out = click_fallback w url furl dry verify;
              cs = click_sequence w url verify
          in fst out = fst cs
             \<and> snd out = tr @ [Click COOKIE_SELECTORS] @ (if verify then [Baseline] else []) @ snd cs
             \<and> take 2 (snd cs) = [AddListener, Click SLOW_SELECTORS]
             \<and> (truthy_str (click_slow_first w) \<longrightarrow> Click MANUAL_SELECTORS \<notin> set (snd cs))
             \<and> (\<not> truthy_str (click_slow_first w) \<longrightarrow>
                    take 3 (snd cs) = [AddListener, Click SLOW_SELECTORS, Click MANUAL_SELECTORS])
             \<and> (\<not> truthy_str (click_slow_first w) \<and> \<not> truthy_str (click_manual w) \<longrightarrow>
                    status (fst out) = ''fallback_needed''
                    \<and> reason (fst out) = ''manual_button_not_found'')
             \<and> (\<not> truthy_str (click_slow_first w) \<and> truthy_str (click_manual w)
                  \<and> \<not> truthy_str (click_slow_second w) \<longrightarrow>
                    status (fst out) = ''partial''
                    \<and> reason (fst out) = ''download_confirmation_button_not_found''))"
proof -
  let ?cs = "click_sequence w url verify"
  let ?loop = "completion_loop url (final_download_errors w) (polls w) False"
  have out: "click_fallback w url furl dry verify
               = (fst ?cs, tr @ [Click COOKIE_SELECTORS] @ (if verify then [Baseline] else []) @ snd ?cs)"
    using nav live by (simp add: click_fallback_def)
  have lp: "Click MANUAL_SELECTORS \<notin> set (snd ?loop)"
    using completion_loop_trace [of url "final_download_errors w" "polls w" False]
      manual_link_not_manual by auto
  have slow_ne: "SLOW_SELECTORS \<noteq> MANUAL_SELECTORS"
    by (simp add: SLOW_SELECTORS_def MANUAL_SELECTORS_def)
  have t2: "take 2 (snd ?cs) = [AddListener, Click SLOW_SELECTORS]"
    by (simp add: click_sequence_def)
  have found: "truthy_str (click_slow_first w) \<longrightarrow> Click MANUAL_SELECTORS \<notin> set (snd ?cs)"
    using lp slow_ne by (simp add: click_sequence_def)
  have t3: "\<not> truthy_str (click_slow_first w) \<longrightarrow>
              take 3 (snd ?cs) = [AddListener, Click SLOW_SELECTORS, Click MANUAL_SELECTORS]"
    by (simp add: click_sequence_def)
  have fb: "\<not> truthy_str (click_slow_first w) \<and> \<not> truthy_str (click_manual w) \<longrightarrow>
              status (fst ?cs) = ''fallback_needed'' \<and> reason (fst ?cs) = ''manual_button_not_found''"
    by (simp add: click_sequence_def)
  have pa: "\<not> truthy_str (click_slow_first w) \<and> truthy_str (click_manual w)
              \<and> \<not> truthy_str (click_slow_second w) \<longrightarrow>
              status (fst ?cs) = ''partial''
              \<and> reason (fst ?cs) = ''download_confirmation_button_not_found''"
    by (simp add: click_sequence_def)
  show ?thesis
    unfolding Let_def out fst_conv snd_conv
    using t2 found t3 fb pa by blast
qed

theorem click_sequence_order_witness:
  "status (fst (click_fallback manual_only_world mod_12_file_5 (files_url_of mod_12_file_5) False True))
     = ''partial''
   \<and> take 3 (snd (click_sequence manual_only_world mod_12_file_5 True))
       = [AddListener, Click SLOW_SELECTORS, Click MANUAL_SELECTORS]
   \<and> status (fst (click_fallback silent_world mod_12_file_5 (files_url_of mod_12_file_5) False True))
       = ''fallback_needed''"
proof -
  have nav1: "navigate manual_only_world (files_url_of mod_12_file_5)
               = (None, [Goto (files_url_of mod_12_file_5)])"
    by (simp add: navigate_def manual_only_world_def silent_world_def)
  have nav2: "navigate silent_world (files_url_of mod_12_file_5)
               = (None, [Goto (files_url_of mod_12_file_5)])"
    by (simp add: navigate_def silent_world_def)
  have live: "\<not> False"
    by simp
  have w1: "\<not> truthy_str (click_slow_first manual_only_world)
            \<and> truthy_str (click_manual manual_only_world)
            \<and> \<not> truthy_str (click_slow_second manual_only_world)"
    by (simp add: truthy_str_def manual_only_world_def silent_world_def)
  have w2: "\<not> truthy_str (click_slow_first silent_world) \<and> \<not> truthy_str (click_manual silent_world)"
    by (simp add: truthy_str_def silent_world_def)
  show ?thesis
    using click_sequence_order [OF nav1 live, where url = mod_12_file_5 and verify = True]
      click_sequence_order [OF nav2 live, where url = mod_12_file_5 and verify = True] w1 w2
    unfolding Let_def by blast
qed

subsection \<open>What the dry-run flag gates\<close>

text \<open>
  Claim C10. The dry-run flag does not stop the direct path: when the direct path is
  enabled (verification on; cookie header, game id, file id, mod id and domain known) and
  its first run downloads a file, a dry run returns the result of that download, \<open>ok\<close> or
  \<open>partial\<close>, after the download request has been made. Conversely a result with status
  \<open>dry_run\<close> is only ever the result of the click fallback, in a dry run, after the
  navigation to the files tab.
\<close>

theorem dry_run_gates_only_click_fallback:
  "(direct_args verify cookie_header game_id target = Some (c, g, d, m, f)
      \<and> direct_attempt w False c (files_url_of url) g f (fallback_name d m f) = (Inr p, tr)
    \<longrightarrow> process_target w url True verify cookie_header game_id target
          = (direct_result url ''direct_download:'' p, tr)
        \<and> DirectDownload False \<in> set tr
        \<and> status (direct_result url ''direct_download:'' p)
            = (if has_archive_extension (path_name p) then ''ok'' else ''partial''))
   \<and> (status (fst (process_target w url dry verify cookie_header game_id target)) = ''dry_run''
    \<longrightarrow> dry
        \<and> reason (fst (process_target w url dry verify cookie_header game_id target)) = ''navigation_only''
        \<and> fst (process_target w url dry verify cookie_header game_id target)
            = fst (click_fallback w url (files_url_of url) dry verify)
        \<and> Goto (files_url_of url) \<in> set (snd (process_target w url dry verify cookie_header game_id target)))"
proof (intro conjI impI)
  assume a: "direct_args verify cookie_header game_id target = Some (c, g, d, m, f)
      \<and> direct_attempt w False c (files_url_of url) g f (fallback_name d m f) = (Inr p, tr)"
  then show "process_target w url True verify cookie_header game_id target
          = (direct_result url ''direct_download:'' p, tr)"
    by (simp add: process_target_def direct_path_def)
  from a show "DirectDownload False \<in> set tr"
    using direct_attempt_downloaded [of w False c "files_url_of url" g f "fallback_name d m f" p]
    by simp
  show "status (direct_result url ''direct_download:'' p)
            = (if has_archive_extension (path_name p) then ''ok'' else ''partial'')"
    by (rule direct_result_status)
next
  let ?out = "process_target w url dry verify cookie_header game_id target"
  let ?click = "click_fallback w url (files_url_of url) dry verify"
  assume s: "status (fst ?out) = ''dry_run''"
  have via: "fst ?out = fst ?click \<and> set (snd ?click) \<subseteq> set (snd ?out)"
  proof (cases "direct_args verify cookie_header game_id target")
    case None
    then show ?thesis by (simp add: process_target_def)
  next
    case (Some a)
    obtain c' g' d' m' f' where a: "a = (c', g', d', m', f')"
      by (cases a)
    obtain r tr' where dp: "direct_path w url c' (files_url_of url) g' f' (fallback_name d' m' f') = (r, tr')"
      by (cases "direct_path w url c' (files_url_of url) g' f' (fallback_name d' m' f')")
    show ?thesis
    proof (cases r)
      case None
      with Some a dp show ?thesis by (simp add: process_target_def)
    next
      case (Some item)
      with dp have "status item = ''ok'' \<or> status item = ''partial''"
        using direct_path_status [of w url c' "files_url_of url" g' f' "fallback_name d' m' f'" item]
        by simp
      moreover have "fst ?out = item"
        using \<open>direct_args verify cookie_header game_id target = Some a\<close> a dp Some
        by (simp add: process_target_def)
      ultimately show ?thesis using s by auto
    qed
  qed
  from via s have cs: "status (fst ?click) = ''dry_run''" by simp
  note d = click_fallback_dry_run [OF cs]
  from d show dry by (rule conjunct1)
  from d have r: "reason (fst ?click) = ''navigation_only''" by (rule conjunct1 [OF conjunct2])
  from d have g: "Goto (files_url_of url) \<in> set (snd ?click)" by (rule conjunct2 [OF conjunct2])
  from via have e: "fst ?out = fst ?click" by (rule conjunct1)
  from via have sub: "set (snd ?click) \<subseteq> set (snd ?out)" by (rule conjunct2)
  from r e show "reason (fst ?out) = ''navigation_only''" by (rule ssubst [where P = "\<lambda>x. reason x = ''navigation_only''", rotated])
  from e show "fst ?out = fst ?click" .
  from g sub show "Goto (files_url_of url) \<in> set (snd ?out)" by (rule subsetD [rotated])
qed

theorem dry_run_gates_only_click_fallback_witness:
  "process_mod (direct_world ''/home/u/Downloads/Mod.zip'') mod_12_file_5 True True (Some ''sid=1'')
     (Some 1303)
     = Some (\<lparr>index = 0, mod_url = mod_12_file_5, status = ''ok'',
               reason = ''direct_download:/home/u/Downloads/Mod.zip''\<rparr>,
             [ResolveUrl False, DirectDownload False])
   \<and> Goto (files_url_of mod_12_file_5)
       \<in> set (snd (process_target silent_world mod_12_file_5 True True (Some ''sid=1'') (Some 1303)
                      skyrim_12_5))"
proof -
  let ?p = "''/home/u/Downloads/Mod.zip''"
  have parse: "parse_mod_target mod_12_file_5 = Some skyrim_12_5"
    by code_simp
  have args: "direct_args True (Some ''sid=1'') (Some 1303) skyrim_12_5
                = Some (''sid=1'', 1303, ''skyrim'', 12, 5)"
    by (simp add: direct_args_def skyrim_12_5_def)
  have first: "direct_attempt (direct_world ?p) False ''sid=1'' (files_url_of mod_12_file_5) 1303 5
                 (fallback_name ''skyrim'' 12 5) = (Inr ?p, [ResolveUrl False, DirectDownload False])"
    by (simp add: direct_attempt_def direct_world_def silent_world_def)
  have res: "direct_result mod_12_file_5 ''direct_download:'' ?p
               = \<lparr>index = 0, mod_url = mod_12_file_5, status = ''ok'',
                    reason = ''direct_download:/home/u/Downloads/Mod.zip''\<rparr>"
    by code_simp
  have "process_target (direct_world ?p) mod_12_file_5 True True (Some ''sid=1'') (Some 1303) skyrim_12_5
          = (direct_result mod_12_file_5 ''direct_download:'' ?p, [ResolveUrl False, DirectDownload False])"
    using dry_run_gates_only_click_fallback
            [where w = "direct_world ?p" and url = mod_12_file_5 and verify = True
               and cookie_header = "Some ''sid=1''" and game_id = "Some 1303"
               and target = skyrim_12_5 and c = "''sid=1''" and g = 1303 and d = "''skyrim''"
               and m = 12 and f = 5 and p = ?p and tr = "[ResolveUrl False, DirectDownload False]"]
      args first
    by blast
  then have a: "process_mod (direct_world ?p) mod_12_file_5 True True (Some ''sid=1'') (Some 1303)
                  = Some (\<lparr>index = 0, mod_url = mod_12_file_5, status = ''ok'',
                            reason = ''direct_download:/home/u/Downloads/Mod.zip''\<rparr>,
                          [ResolveUrl False, DirectDownload False])"
    by (simp add: process_mod_def parse res)
  have dr: "status (fst (process_target silent_world mod_12_file_5 True True (Some ''sid=1'')
                           (Some 1303) skyrim_12_5)) = ''dry_run''"
    by code_simp
  have b: "Goto (files_url_of mod_12_file_5)
             \<in> set (snd (process_target silent_world mod_12_file_5 True True (Some ''sid=1'')
                            (Some 1303) skyrim_12_5))"
    using dry_run_gates_only_click_fallback
            [where w = silent_world and url = mod_12_file_5 and dry = True and verify = True
               and cookie_header = "Some ''sid=1''" and game_id = "Some 1303"
               and target = skyrim_12_5] dr
    by blast
  from a b show ?thesis
    by (rule conjI)
qed

subsection \<open>Completion codes after a fatal error\<close>

text \<open>
  Claim C7, evaluated on the code. An interrupt inside the run of auto\_que.py is recorded
  under \<open>fatal_error\<close> and the logs are written, but the completion code is the one of any
  other failure, 1; nexus\_browser\_first.py returns 130 for the interrupt and 1 for the
  failure.
\<close>

theorem auto_que_interrupt_exit_code:
  "exit_code (auto_que_main NoError json_path run_data KeyboardInterrupt) = 1
   \<and> exit_code (auto_que_main NoError json_path run_data (Exception ''boom'')) = 1
   \<and> json_log (auto_que_main NoError json_path run_data KeyboardInterrupt)
       = Some (run_data\<lparr>interrupted := False,
                          fatal_error := Some ''Interrupted by user (Ctrl+C)''\<rparr>)
   \<and> exit_code (browser_first_main True json_path run_data KeyboardInterrupt) = 130
   \<and> exit_code (browser_first_main True json_path run_data (Exception ''boom'')) = 1"
  by (simp add: auto_que_main_def browser_first_main_def truthy_str_def Let_def)

subsection \<open>The completion poll and temporary files\<close>

lemma new_files_all_temp:
  assumes "\<forall>e \<in> set (entries_at d t). is_temp_download (path e)"
  shows "new_files d baseline t = []"
proof -
  have "filter (\<lambda>p. p \<notin> baseline \<and> \<not> is_temp_download p) (remdups (list_candidate_files d t)) = []"
    using assms by (auto simp: filter_empty_conv list_candidate_files_def)
  then show ?thesis by (simp add: new_files_def)
qed

text \<open>
  Claim C9. When at every moment every entry of the downloads directory has a temporary
  in-progress extension (for instance when it only ever holds \<open>report.crdownload\<close>),
  \<open>wait_for_new_completed_download\<close> returns \<open>None\<close>, for every baseline, every timeout and
  every starting time: the poll ends, and it never names such a file as completed.
\<close>

theorem temp_only_never_completed:
  assumes temp: "\<forall>t. \<forall>e \<in> set (entries_at d t). is_temp_download (path e)"
  shows "wait_for_new_completed_download d baseline timeout_sec start t = None"
  using temp
proof (induction d baseline timeout_sec start t rule: wait_for_new_completed_download.induct)
  case (1 d baseline timeout_sec start t)
  have all: "\<forall>e \<in> set (entries_at d t). is_temp_download (path e)"
    using "1.prems" by blast
  have nf: "new_files d baseline t = []"
    using all by (rule new_files_all_temp)
  have fs: "first_stable d (new_files d baseline t) t = (None, t)"
    by (simp add: nf)
  show ?case
  proof (cases "timeout_sec < t - start")
    case True
    then show ?thesis
      by (subst wait_for_new_completed_download.simps) (simp add: fs)
  next
    case False
    have "wait_for_new_completed_download d baseline timeout_sec start (t + 1) = None"
      using "1.IH" [OF _ _ "1.prems"] False by (simp add: fs)
    with False show ?thesis
      by (subst wait_for_new_completed_download.simps) (simp add: fs)
  qed
qed

theorem temp_only_never_completed_witness:
  "wait_for_new_completed_download report_dir {} 45 0 0 = None"
proof -
  have "\<forall>t. \<forall>e \<in> set (entries_at report_dir t). is_temp_download (path e)"
    by (simp add: entries_at_def report_dir_def is_temp_download_def path_suffix_def
        path_name_def path_parts_def name_suffix_def lower_def lower_char_def
        TEMP_DOWNLOAD_EXTENSIONS_def)
  then show ?thesis by (rule temp_only_never_completed)
qed

end
